theory Spec2Isabelle
  imports Main "HOL-Library.Multiset"
begin

section \<open>Data model\<close>

text \<open>
  The documents of \<^verbatim>\<open>src/App.js\<close>. The status fields hold the string literals the
  code writes and compares: \<^verbatim>\<open>'available'\<close>, \<^verbatim>\<open>'borrowed'\<close> for an item (line 247),
  \<^verbatim>\<open>'pending'\<close>, \<^verbatim>\<open>'approved'\<close>, \<^verbatim>\<open>'declined'\<close>, \<^verbatim>\<open>'returned'\<close> for a request (line 305).
  Identifiers (user ids, document ids) are strings. A view sees a document as
  \<^verbatim>\<open>{ id: doc.id, ...doc.data() }\<close>, so the records carry the document id.
\<close>

datatype item_status = Available | Borrowed

datatype request_status = Pending | Approved | Declined | Returned

record profile =
  displayName :: string
  neighborhoodId :: string
  createdAt :: int

record item =
  item_id :: string
  item_name :: string
  item_description :: string
  item_imageUrl :: string
  item_terms :: string
  item_ownerId :: string
  item_ownerName :: string
  item_status :: item_status
  item_createdAt :: int

text \<open>
  \<open>requestedAt\<close> is the seconds of the server timestamp; it is absent (\<open>None\<close>) in a
  snapshot taken before the server has assigned it, which is why the code reads it
  with \<^verbatim>\<open>requestedAt?.seconds || 0\<close>.
\<close>

record request =
  req_id :: string
  itemId :: string
  itemName :: string
  itemImageUrl :: string
  ownerId :: string
  borrowerId :: string
  borrowerName :: string
  borrowDate :: string
  returnDate :: string
  message :: string
  status :: request_status
  requestedAt :: "int option"
  conditionCheckIn :: string
  conditionCheckOut :: string

section \<open>The browsing view (Dashboard, lines 155-202)\<close>

text \<open>
  The snapshot callback stores the whole, unfiltered item collection in \<open>items\<close>.
  The render tests \<^verbatim>\<open>items.length === 0\<close> on that unfiltered list, and otherwise maps
  \<^verbatim>\<open>items.filter(item => item.status === 'available' && item.ownerId !== user.uid)\<close>
  to cards.
\<close>

datatype dashboard_view = NoItemsMessage | Grid "item list"

definition visibleItems :: "string \<Rightarrow> item list \<Rightarrow> item list" where
  "visibleItems uid items =
     filter (\<lambda>item. item_status item = Available \<and> item_ownerId item \<noteq> uid) items"

definition Dashboard :: "string \<Rightarrow> item list \<Rightarrow> dashboard_view" where
  "Dashboard uid items =
     (if length items = 0 then NoItemsMessage else Grid (visibleItems uid items))"

section \<open>The document store\<close>

text \<open>
  The client reads and writes an external document store through \<^verbatim>\<open>getDoc\<close>,
  \<^verbatim>\<open>addDoc\<close> and \<^verbatim>\<open>updateDoc\<close>. The model holds the item and request collections
  of one neighbourhood (every item and request path the client builds has the form
  \<^verbatim>\<open>/artifacts/{appId}/public/data/{neighborhoodId}/items|requests/{id}\<close>, and every
  profile the client creates has the neighbourhood \<^verbatim>\<open>'west-boone'\<close>), and the profile
  documents by their full path. \<open>issued\<close> is the sequence of write calls the client
  has made, in order, whether or not the store accepted them.

  A write can be rejected by the store (network, permission): each write takes a flag
  \<open>accepted\<close> that says whether the store accepts it. \<^verbatim>\<open>updateDoc\<close> on a document
  that does not exist is rejected as well. \<^verbatim>\<open>addDoc\<close> stores the new document under
  an identifier the store generates; the model takes it as the argument \<open>newId\<close>.
\<close>

datatype store_write =
    AddProfile string profile
  | AddItem item
  | AddRequest request
  | SetRequestStatus string request_status
  | SetItemStatus string item_status

datatype error = WriteRejected | ReadRejected | NoSuchDocument

record store =
  profileDocs :: "(string \<times> profile) list"
  items :: "item list"
  requests :: "request list"
  issued :: "store_write list"

definition emptyStore :: store where
  "emptyStore = \<lparr>profileDocs = [], items = [], requests = [], issued = []\<rparr>"

definition getDoc_profile :: "string \<Rightarrow> store \<Rightarrow> profile option" where
  "getDoc_profile path s = map_of (profileDocs s) path"

definition getDoc_request :: "string \<Rightarrow> store \<Rightarrow> request option" where
  "getDoc_request requestId s = find (\<lambda>r. req_id r = requestId) (requests s)"

definition getDoc_item :: "string \<Rightarrow> store \<Rightarrow> item option" where
  "getDoc_item iid s = find (\<lambda>i. item_id i = iid) (items s)"

definition addDoc_profile ::
  "bool \<Rightarrow> string \<Rightarrow> string \<Rightarrow> profile \<Rightarrow> store \<Rightarrow> error option \<times> store" where
  "addDoc_profile accepted collectionPath newId p s =
     (let s1 = s\<lparr>issued := issued s @ [AddProfile collectionPath p]\<rparr>
      in if accepted
         then (None, s1\<lparr>profileDocs := profileDocs s @ [(collectionPath @ ''/'' @ newId, p)]\<rparr>)
         else (Some WriteRejected, s1))"

definition addDoc_item :: "bool \<Rightarrow> item \<Rightarrow> store \<Rightarrow> error option \<times> store" where
  "addDoc_item accepted i s =
     (let s1 = s\<lparr>issued := issued s @ [AddItem i]\<rparr>
      in if accepted then (None, s1\<lparr>items := items s @ [i]\<rparr>)
         else (Some WriteRejected, s1))"

definition addDoc_request :: "bool \<Rightarrow> request \<Rightarrow> store \<Rightarrow> error option \<times> store" where
  "addDoc_request accepted r s =
     (let s1 = s\<lparr>issued := issued s @ [AddRequest r]\<rparr>
      in if accepted then (None, s1\<lparr>requests := requests s @ [r]\<rparr>)
         else (Some WriteRejected, s1))"

definition setRequestStatus :: "string \<Rightarrow> request_status \<Rightarrow> request list \<Rightarrow> request list" where
  "setRequestStatus requestId st rs =
     map (\<lambda>r. if req_id r = requestId then r\<lparr>status := st\<rparr> else r) rs"

definition setItemStatus :: "string \<Rightarrow> item_status \<Rightarrow> item list \<Rightarrow> item list" where
  "setItemStatus iid st its =
     map (\<lambda>i. if item_id i = iid then i\<lparr>item_status := st\<rparr> else i) its"

definition updateDoc_request ::
  "bool \<Rightarrow> string \<Rightarrow> request_status \<Rightarrow> store \<Rightarrow> error option \<times> store" where
  "updateDoc_request accepted requestId st s =
     (let s1 = s\<lparr>issued := issued s @ [SetRequestStatus requestId st]\<rparr>
      in if \<not> accepted then (Some WriteRejected, s1)
         else if getDoc_request requestId s = None then (Some NoSuchDocument, s1)
         else (None, s1\<lparr>requests := setRequestStatus requestId st (requests s)\<rparr>))"

definition updateDoc_item ::
  "bool \<Rightarrow> string \<Rightarrow> item_status \<Rightarrow> store \<Rightarrow> error option \<times> store" where
  "updateDoc_item accepted iid st s =
     (let s1 = s\<lparr>issued := issued s @ [SetItemStatus iid st]\<rparr>
      in if \<not> accepted then (Some WriteRejected, s1)
         else if getDoc_item iid s = None then (Some NoSuchDocument, s1)
         else (None, s1\<lparr>items := setItemStatus iid st (items s)\<rparr>))"

section \<open>Session bootstrap (App, the onAuthStateChanged callback, lines 50-73)\<close>

record app_state =
  user :: "string option"
  userProfile :: "profile option"
  isAuthReady :: bool

definition initialApp :: app_state where
  "initialApp = \<lparr>user = None, userProfile = None, isAuthReady = False\<rparr>"

definition profilePath :: "string \<Rightarrow> string \<Rightarrow> string" where
  "profilePath appId uid = ''/artifacts/'' @ appId @ ''/users/'' @ uid @ ''/profile''"

text \<open>
  The callback looks the profile up with \<^verbatim>\<open>getDoc(doc(db, path))\<close> and, when it is
  absent, stores the new profile with \<^verbatim>\<open>addDoc(collection(db, path), newProfile)\<close>,
  both at the same \<open>path\<close>. \<open>readOk\<close> says whether the store client serves the lookup;
  when it does not, the callback is abandoned there (nothing catches the rejection),
  as it is when the write is rejected.
\<close>

definition onAuthStateChanged_callback ::
  "string \<Rightarrow> bool \<Rightarrow> bool \<Rightarrow> string \<Rightarrow> int \<Rightarrow> string option \<Rightarrow> app_state \<times> store
     \<Rightarrow> error option \<times> app_state \<times> store" where
  "onAuthStateChanged_callback appId readOk addOk newId now currentUser world =
     (case world of (a, s) \<Rightarrow>
        (case currentUser of
           Some uid \<Rightarrow>
             (let a1 = a\<lparr>user := Some uid\<rparr>
              in if \<not> readOk then (Some ReadRejected, a1, s)
                 else (case getDoc_profile (profilePath appId uid) s of
                     None \<Rightarrow>
                       (let newProfile =
                              \<lparr>displayName = ''Neighbor-'' @ take 5 uid,
                               neighborhoodId = ''west-boone'',
                               createdAt = now\<rparr>
                        in (case addDoc_profile addOk (profilePath appId uid) newId newProfile s of
                              (Some e, s1) \<Rightarrow> (Some e, a1, s1)
                            | (None, s1) \<Rightarrow>
                                (None, a1\<lparr>userProfile := Some newProfile, isAuthReady := True\<rparr>, s1)))
                   | Some p \<Rightarrow> (None, a1\<lparr>userProfile := Some p, isAuthReady := True\<rparr>, s)))
         | None \<Rightarrow> (None, a\<lparr>user := None, userProfile := None, isAuthReady := True\<rparr>, s)))"

section \<open>Share-item flow (AddItemModal.handleSubmit, lines 231-256)\<close>

definition AddItemModal_handleSubmit ::
  "bool \<Rightarrow> string \<Rightarrow> int \<Rightarrow> string \<Rightarrow> profile \<Rightarrow> string \<Rightarrow> string \<Rightarrow> string \<Rightarrow> string \<Rightarrow> store
     \<Rightarrow> error option \<times> store" where
  "AddItemModal_handleSubmit accepted newId now uid prof name description imageUrl terms s =
     (if name = [] \<or> description = [] then (None, s)
      else addDoc_item accepted
             \<lparr>item_id = newId, item_name = name, item_description = description,
              item_imageUrl = imageUrl, item_terms = terms, item_ownerId = uid,
              item_ownerName = displayName prof, item_status = Available,
              item_createdAt = now\<rparr> s)"

section \<open>Borrow-request flow (BorrowModal.handleSubmit, lines 286-316)\<close>

text \<open>
  The only check before the write is \<^verbatim>\<open>if (!borrowDate || !returnDate) return;\<close>.
  \<^verbatim>\<open>item.imageUrl || ''\<close> is the image reference, or the empty string when it is empty.
\<close>

definition BorrowModal_handleSubmit ::
  "bool \<Rightarrow> string \<Rightarrow> int \<Rightarrow> string \<Rightarrow> profile \<Rightarrow> item \<Rightarrow> string \<Rightarrow> string \<Rightarrow> string \<Rightarrow> store
     \<Rightarrow> error option \<times> store" where
  "BorrowModal_handleSubmit accepted newId now uid prof item bDate rDate msg s =
     (if bDate = [] \<or> rDate = [] then (None, s)
      else addDoc_request accepted
             \<lparr>req_id = newId, itemId = item_id item, itemName = item_name item,
              itemImageUrl = (if item_imageUrl item = [] then [] else item_imageUrl item),
              ownerId = item_ownerId item, borrowerId = uid,
              borrowerName = displayName prof, borrowDate = bDate, returnDate = rDate,
              message = msg, status = Pending, requestedAt = Some now,
              conditionCheckIn = [], conditionCheckOut = []\<rparr> s)"

section \<open>Request disposition (MyItems.handleAction, lines 379-390)\<close>

text \<open>
  \<^verbatim>\<open>handleAction(requestId, newStatus)\<close> awaits the status write; a rejection ends the
  handler there. When \<open>newStatus\<close> is \<^verbatim>\<open>'approved'\<close> it reads the request back and
  writes \<^verbatim>\<open>'borrowed'\<close> to the item the request names.
\<close>

definition handleAction ::
  "bool \<Rightarrow> bool \<Rightarrow> string \<Rightarrow> request_status \<Rightarrow> store \<Rightarrow> error option \<times> store" where
  "handleAction ok1 ok2 requestId newStatus s =
     (case updateDoc_request ok1 requestId newStatus s of
        (Some e, s1) \<Rightarrow> (Some e, s1)
      | (None, s1) \<Rightarrow>
          if newStatus = Approved
          then (case getDoc_request requestId s1 of
                  None \<Rightarrow> (Some NoSuchDocument, s1)
                | Some requestData \<Rightarrow> updateDoc_item ok2 (itemId requestData) Borrowed s1)
          else (None, s1))"

section \<open>Return flow (MyBorrows.handleReturn, lines 481-491)\<close>

text \<open>
  \<^verbatim>\<open>handleReturn(request)\<close> takes the request object of the view's snapshot. Both
  writes stand in one \<^verbatim>\<open>try\<close> block: a rejected first write skips the second, and the
  error is logged, not raised. The result's first component is the logged error.
\<close>

definition handleReturn ::
  "bool \<Rightarrow> bool \<Rightarrow> request \<Rightarrow> store \<Rightarrow> error option \<times> store" where
  "handleReturn ok1 ok2 request s =
     (case updateDoc_request ok1 (req_id request) Returned s of
        (Some e, s1) \<Rightarrow> (Some e, s1)
      | (None, s1) \<Rightarrow> updateDoc_item ok2 (itemId request) Available s1)"

section \<open>The owner's and the borrower's views\<close>

text \<open>
  MyItems (lines 355-457) subscribes to the user's items and to the requests with
  \<^verbatim>\<open>ownerId == user.uid\<close> and status \<^verbatim>\<open>in ["pending", "approved"]\<close>. For each of the
  user's items it lists the requests with \<^verbatim>\<open>r.itemId === item.id\<close>, and renders the
  approve and decline buttons only where \<^verbatim>\<open>req.status === 'pending'\<close> (lines 435-440).
  \<open>MyItems_actionable\<close> is the list of requests that carry the two buttons.
\<close>

definition MyItems_actionable :: "string \<Rightarrow> store \<Rightarrow> request list" where
  "MyItems_actionable uid s =
     (let myItems = filter (\<lambda>i. item_ownerId i = uid) (items s);
          reqs = filter (\<lambda>r. ownerId r = uid \<and> (status r = Pending \<or> status r = Approved))
                   (requests s)
      in concat (map (\<lambda>item.
           filter (\<lambda>req. status req = Pending)
             (filter (\<lambda>r. itemId r = item_id item) reqs)) myItems))"

subsection \<open>The sort of the borrow history (lines 469-475)\<close>

definition statusOrder :: "request_status \<Rightarrow> int" where
  "statusOrder st = (case st of Approved \<Rightarrow> 1 | Pending \<Rightarrow> 2 | Returned \<Rightarrow> 3 | Declined \<Rightarrow> 4)"

text \<open>\<^verbatim>\<open>(r.requestedAt?.seconds || 0)\<close>: an absent timestamp, and the seconds 0, read 0.\<close>

definition seconds_or_0 :: "request \<Rightarrow> int" where
  "seconds_or_0 r = (case requestedAt r of None \<Rightarrow> 0 | Some sec \<Rightarrow> (if sec = 0 then 0 else sec))"

definition compareRequests :: "request \<Rightarrow> request \<Rightarrow> int" where
  "compareRequests a b =
     (if statusOrder (status a) \<noteq> statusOrder (status b)
      then statusOrder (status a) - statusOrder (status b)
      else seconds_or_0 b - seconds_or_0 a)"

text \<open>
  \<^verbatim>\<open>Array.prototype.sort(compare)\<close> is a stable sort: \<open>a\<close> comes before \<open>b\<close> when
  \<open>compare a b < 0\<close>, and elements that compare 0 keep their order. The model is the
  stable insertion sort: each element is put before the first element of the sorted
  rest that it does not have to follow.
\<close>

fun insertBy :: "('a \<Rightarrow> 'a \<Rightarrow> int) \<Rightarrow> 'a \<Rightarrow> 'a list \<Rightarrow> 'a list" where
  "insertBy cmp x [] = [x]"
| "insertBy cmp x (y # ys) = (if cmp x y \<le> 0 then x # y # ys else y # insertBy cmp x ys)"

definition array_sort :: "('a \<Rightarrow> 'a \<Rightarrow> int) \<Rightarrow> 'a list \<Rightarrow> 'a list" where
  "array_sort cmp xs = foldr (insertBy cmp) xs []"

definition sortRequests :: "request list \<Rightarrow> request list" where
  "sortRequests requestsData = array_sort compareRequests requestsData"

text \<open>
  MyBorrows (lines 459-535) subscribes to the requests with \<^verbatim>\<open>borrowerId == user.uid\<close>,
  sorts each snapshot, and renders the return button only where
  \<^verbatim>\<open>req.status === 'approved'\<close> (lines 525-527). \<open>MyBorrows_returnable\<close> is the list
  of requests that carry the button.
\<close>

definition MyBorrows_view :: "string \<Rightarrow> store \<Rightarrow> request list" where
  "MyBorrows_view uid s = sortRequests (filter (\<lambda>r. borrowerId r = uid) (requests s))"

definition MyBorrows_returnable :: "string \<Rightarrow> store \<Rightarrow> request list" where
  "MyBorrows_returnable uid s = filter (\<lambda>req. status req = Approved) (MyBorrows_view uid s)"

section \<open>The clients and the store over time\<close>

text \<open>
  A handler is an \<^verbatim>\<open>async\<close> function: it runs up to its first \<^verbatim>\<open>await\<close>, and the rest
  runs later, after the awaited write has been applied; writes of other handlers, of
  this client or of others, can reach the store in between. \<open>handleAction\<close> with
  \<^verbatim>\<open>'approved'\<close> awaits its status write (line 381), then reads the request (line 385)
  and writes the item (line 388); \<open>handleReturn\<close> awaits its status write (line 486)
  and then writes the item of the request object it was called with (line 487). After
  the first write such a handler is in flight, with one write left.
\<close>

datatype in_flight =
    ApproveAwaiting string
  | ReturnAwaiting string

text \<open>
  \<open>db\<close> is the store now, \<open>past\<close> its earlier contents, the latest first, and
  \<open>inflight\<close> the handlers that have made their first write and not yet their second.
\<close>

record system =
  db :: store
  past :: "store list"
  inflight :: "in_flight list"

definition start :: "store \<Rightarrow> system" where
  "start s = \<lparr>db = s, past = [], inflight = []\<rparr>"

text \<open>
  A component renders from React state that its \<^verbatim>\<open>onSnapshot\<close> callback last set
  (lines 166-169, 364-366, 373-375, 466-477): the content of the store at the time of
  that snapshot, which is the current content or an earlier one. \<open>snapshot sys age\<close>
  is the store as it was \<open>age\<close> changes ago.
\<close>

definition snapshot :: "system \<Rightarrow> nat \<Rightarrow> store option" where
  "snapshot sys age =
     (if age < length (db sys # past sys) then Some ((db sys # past sys) ! age) else None)"

definition commit :: "system \<Rightarrow> store \<Rightarrow> system" where
  "commit sys s' = sys\<lparr>db := s', past := db sys # past sys\<rparr>"

text \<open>
  What happens, one event at a time. A click is possible where the component's
  snapshot renders the button; the handler checks nothing itself. A click is taken at
  the moment its first write reaches the store, so its snapshot is the content of the
  store at that moment or an earlier one.
  \<^item> \<open>ShareSubmit\<close>: the share form is submitted (it is always offered).
  \<^item> \<open>RequestSubmit age\<close>: the borrow form is submitted for an item that the
    browsing view shows in its snapshot of the items.
  \<^item> \<open>ApproveClick ageItems ageRequests\<close>, \<open>DeclineClick ageItems ageRequests\<close>: MyItems
    has one snapshot of the user's items and one of the requests; the click is on a
    request that carries the buttons there. Approve makes its first write and is then in
    flight; decline is its one write.
  \<^item> \<open>ReturnClick age\<close>: the click is on a request that carries the return button in the
    snapshot of MyBorrows; the handler gets that request object, makes its first write
    and is then in flight.
  \<^item> \<open>SecondWrite k\<close>: the \<open>k\<close>-th handler in flight makes its second write and ends.
    For an approval this is the read of the request and the write of its item; the
    read takes the request's \<^verbatim>\<open>itemId\<close>, which no write changes.
  With \<^verbatim>\<open>'declined'\<close>, \<open>handleAction\<close> is its status write alone.
  The last argument of an event is the outcome of its write. \<open>newId\<close> is the
  identifier the store generates for a new document, which no document of the
  collection has. The result is \<open>None\<close> when the event cannot happen.
\<close>

datatype event =
    ShareSubmit string profile string int string string string string bool
  | RequestSubmit nat string profile string int string string string string bool
  | ApproveClick nat nat string string bool
  | DeclineClick nat nat string string bool
  | ReturnClick nat string string bool
  | SecondWrite nat bool

definition MyItems_buttons :: "system \<Rightarrow> nat \<Rightarrow> nat \<Rightarrow> string \<Rightarrow> request list option" where
  "MyItems_buttons sys ageItems ageRequests uid =
     (case snapshot sys ageItems of
        None \<Rightarrow> None
      | Some vi \<Rightarrow>
          (case snapshot sys ageRequests of
             None \<Rightarrow> None
           | Some vr \<Rightarrow> Some (MyItems_actionable uid (vi\<lparr>requests := requests vr\<rparr>))))"

fun exec1 :: "event \<Rightarrow> system \<Rightarrow> system option" where
  "exec1 (ShareSubmit uid prof newId now name description imageUrl terms ok) sys =
     (if newId \<in> set (map item_id (items (db sys))) then None
      else Some (commit sys
        (snd (AddItemModal_handleSubmit ok newId now uid prof name description imageUrl terms
               (db sys)))))"
| "exec1 (RequestSubmit age uid prof newId now iid bDate rDate msg ok) sys =
     (case snapshot sys age of
        None \<Rightarrow> None
      | Some v \<Rightarrow>
          (case find (\<lambda>i. item_id i = iid) (visibleItems uid (items v)) of
             None \<Rightarrow> None
           | Some item \<Rightarrow>
               if newId \<in> set (map req_id (requests (db sys))) then None
               else Some (commit sys
                 (snd (BorrowModal_handleSubmit ok newId now uid prof item bDate rDate msg
                        (db sys))))))"
| "exec1 (ApproveClick ageItems ageRequests uid requestId ok) sys =
     (case MyItems_buttons sys ageItems ageRequests uid of
        None \<Rightarrow> None
      | Some buttons \<Rightarrow>
          (case find (\<lambda>r. req_id r = requestId) buttons of
             None \<Rightarrow> None
           | Some req \<Rightarrow>
               (case updateDoc_request ok requestId Approved (db sys) of
                  (Some e, s1) \<Rightarrow> Some (commit sys s1)
                | (None, s1) \<Rightarrow>
                    Some ((commit sys s1)
                      \<lparr>inflight := inflight sys @ [ApproveAwaiting requestId]\<rparr>))))"
| "exec1 (DeclineClick ageItems ageRequests uid requestId ok) sys =
     (case MyItems_buttons sys ageItems ageRequests uid of
        None \<Rightarrow> None
      | Some buttons \<Rightarrow>
          (case find (\<lambda>r. req_id r = requestId) buttons of
             None \<Rightarrow> None
           | Some req \<Rightarrow> Some (commit sys (snd (updateDoc_request ok requestId Declined (db sys))))))"
| "exec1 (ReturnClick age uid requestId ok) sys =
     (case snapshot sys age of
        None \<Rightarrow> None
      | Some v \<Rightarrow>
          (case find (\<lambda>r. req_id r = requestId) (MyBorrows_returnable uid v) of
             None \<Rightarrow> None
           | Some request \<Rightarrow>
               (case updateDoc_request ok (req_id request) Returned (db sys) of
                  (Some e, s1) \<Rightarrow> Some (commit sys s1)
                | (None, s1) \<Rightarrow>
                    Some ((commit sys s1)
                      \<lparr>inflight := inflight sys @ [ReturnAwaiting (itemId request)]\<rparr>))))"
| "exec1 (SecondWrite k ok) sys =
     (if k < length (inflight sys) then
        (let others = take k (inflight sys) @ drop (Suc k) (inflight sys)
         in case inflight sys ! k of
              ApproveAwaiting requestId \<Rightarrow>
                (case getDoc_request requestId (db sys) of
                   None \<Rightarrow> Some ((commit sys (db sys))\<lparr>inflight := others\<rparr>)
                 | Some requestData \<Rightarrow>
                     Some ((commit sys (snd (updateDoc_item ok (itemId requestData) Borrowed (db sys))))
                       \<lparr>inflight := others\<rparr>))
            | ReturnAwaiting iid \<Rightarrow>
                Some ((commit sys (snd (updateDoc_item ok iid Available (db sys))))
                  \<lparr>inflight := others\<rparr>))
      else None)"

fun exec :: "event list \<Rightarrow> system \<Rightarrow> system option" where
  "exec [] sys = Some sys"
| "exec (ev # rest) sys = (case exec1 ev sys of None \<Rightarrow> None | Some sys' \<Rightarrow> exec rest sys')"

subsection \<open>Operations that run one at a time on an up-to-date view\<close>

text \<open>
  The events of an operation whose view shows the current store and whose writes reach
  the store before anything else happens: the click, and for approve and return the
  second write right after an accepted first one. \<open>ok1\<close> and \<open>ok2\<close> are the outcomes
  of the two writes.
\<close>

datatype operation =
    Share string profile string int string string string string
  | Request string profile string int string string string string
  | Approve string string
  | Decline string string
  | Return string string

fun events_of :: "bool \<times> bool \<times> operation \<Rightarrow> event list" where
  "events_of (ok1, ok2, Share uid prof newId now name description imageUrl terms) =
     [ShareSubmit uid prof newId now name description imageUrl terms ok1]"
| "events_of (ok1, ok2, Request uid prof newId now iid bDate rDate msg) =
     [RequestSubmit 0 uid prof newId now iid bDate rDate msg ok1]"
| "events_of (ok1, ok2, Approve uid requestId) =
     ApproveClick 0 0 uid requestId ok1 # (if ok1 then [SecondWrite 0 ok2] else [])"
| "events_of (ok1, ok2, Decline uid requestId) = [DeclineClick 0 0 uid requestId ok1]"
| "events_of (ok1, ok2, Return uid requestId) =
     ReturnClick 0 uid requestId ok1 # (if ok1 then [SecondWrite 0 ok2] else [])"

definition one_at_a_time :: "(bool \<times> bool \<times> operation) list \<Rightarrow> event list" where
  "one_at_a_time ops = concat (map events_of ops)"

definition all_accepted :: "(bool \<times> bool \<times> operation) list \<Rightarrow> bool" where
  "all_accepted ops = list_all (\<lambda>(ok1, ok2, a). ok1 \<and> ok2) ops"

text \<open>An approval of a request whose item is borrowed in the store at the click.\<close>

definition approves_borrowed :: "event \<Rightarrow> store \<Rightarrow> bool" where
  "approves_borrowed ev s =
     (case ev of
        ApproveClick ageItems ageRequests uid requestId ok \<Rightarrow>
          (case getDoc_request requestId s of
             None \<Rightarrow> False
           | Some r \<Rightarrow>
               (case getDoc_item (itemId r) s of
                  None \<Rightarrow> False
                | Some i \<Rightarrow> item_status i = Borrowed))
      | _ \<Rightarrow> False)"

fun no_double_approval :: "event list \<Rightarrow> system \<Rightarrow> bool" where
  "no_double_approval [] sys = True"
| "no_double_approval (ev # rest) sys =
     (\<not> approves_borrowed ev (db sys)
      \<and> (case exec1 ev sys of None \<Rightarrow> True | Some sys' \<Rightarrow> no_double_approval rest sys'))"

text \<open>
  The request snapshot behind a click on approve, decline or return is the current
  content of the store.
\<close>

definition requests_current :: "event \<Rightarrow> bool" where
  "requests_current ev =
     (case ev of
        ApproveClick ageItems ageRequests uid requestId ok \<Rightarrow> ageRequests = 0
      | DeclineClick ageItems ageRequests uid requestId ok \<Rightarrow> ageRequests = 0
      | ReturnClick age uid requestId ok \<Rightarrow> age = 0
      | _ \<Rightarrow> True)"

section \<open>The properties the specification states\<close>

definition approvedCount :: "string \<Rightarrow> store \<Rightarrow> nat" where
  "approvedCount iid s =
     length (filter (\<lambda>r. itemId r = iid \<and> status r = Approved) (requests s))"

text \<open>
  The invariant of the specification: an item is borrowed if and only if at least one
  request on it is approved, and then exactly one is.
\<close>

definition borrowed_iff_one_approved :: "store \<Rightarrow> bool" where
  "borrowed_iff_one_approved s =
     list_all (\<lambda>i. (item_status i = Borrowed \<longleftrightarrow> 1 \<le> approvedCount (item_id i) s)
                  \<and> (item_status i = Borrowed \<longrightarrow> approvedCount (item_id i) s = 1))
       (items s)"

text \<open>Each item's status with the number of approved requests on it.\<close>

definition statusAndApprovals :: "store \<Rightarrow> (item_status \<times> nat) list" where
  "statusAndApprovals s = map (\<lambda>i. (item_status i, approvedCount (item_id i) s)) (items s)"

definition itemsAndApprovals :: "system \<Rightarrow> (item_status \<times> nat) list" where
  "itemsAndApprovals sys = statusAndApprovals (db sys)"

definition invariant_now :: "system \<Rightarrow> bool" where
  "invariant_now sys = borrowed_iff_one_approved (db sys)"

definition borrowed_has_approved :: "store \<Rightarrow> bool" where
  "borrowed_has_approved s =
     list_all (\<lambda>i. item_status i = Borrowed \<longrightarrow> 1 \<le> approvedCount (item_id i) s) (items s)"

text \<open>The allowed transitions of a request's status, one step.\<close>

definition forward :: "request_status \<Rightarrow> request_status \<Rightarrow> bool" where
  "forward a b =
     ((a = Pending \<and> b = Approved) \<or> (a = Approved \<and> b = Returned)
      \<or> (a = Pending \<and> b = Declined))"

text \<open>\<open>r'\<close> is \<open>r\<close> with its status unchanged or moved one allowed step.\<close>

definition one_step :: "request \<Rightarrow> request \<Rightarrow> bool" where
  "one_step r r' =
     (r' = r\<lparr>status := status r'\<rparr>
      \<and> (status r' = status r \<or> forward (status r) (status r')))"

text \<open>
  From the store \<open>older\<close> to the store \<open>newer\<close> every request stays, unchanged or
  moved one allowed step; and a list of stores, the latest first, in which this holds
  from each store to the next later one.
\<close>

definition requests_step :: "store \<Rightarrow> store \<Rightarrow> bool" where
  "requests_step older newer =
     list_all (\<lambda>r. list_ex (\<lambda>r'. one_step r r') (requests newer)) (requests older)"

fun forward_history :: "store list \<Rightarrow> bool" where
  "forward_history [] = True"
| "forward_history [s] = True"
| "forward_history (newer # older # rest) =
     (requests_step older newer \<and> forward_history (older # rest))"

text \<open>Every change of the store so far has kept or moved forward every request.\<close>

definition forward_run :: "system \<Rightarrow> bool" where
  "forward_run sys = forward_history (db sys # past sys)"

text \<open>The statuses of the requests in each store of a system, the latest store first.\<close>

definition status_history :: "system \<Rightarrow> request_status list list" where
  "status_history sys = map (\<lambda>s. map status (requests s)) (db sys # past sys)"

text \<open>
  The order of the borrow history in the specification's words: the status precedence
  approved, pending, returned, declined, and within one status the later request first,
  a request without a timestamp counting as the earliest.
\<close>

definition status_precedes :: "request_status \<Rightarrow> request_status \<Rightarrow> bool" where
  "status_precedes a b =
     ((a, b) \<in> set [(Approved, Pending), (Approved, Returned), (Approved, Declined),
                    (Pending, Returned), (Pending, Declined), (Returned, Declined)])"

definition timestamp :: "request \<Rightarrow> int" where
  "timestamp r = (case requestedAt r of None \<Rightarrow> 0 | Some sec \<Rightarrow> sec)"

definition history_order :: "request \<Rightarrow> request \<Rightarrow> bool" where
  "history_order a b =
     (status_precedes (status a) (status b)
      \<or> (status a = status b \<and> timestamp b \<le> timestamp a))"


section \<open>Auxiliary notions for the proofs\<close>

text \<open>
  A store is well formed when the identifiers of each collection are pairwise different
  and every request names an item of the store. The empty store is, and every
  event keeps it so, since a new document gets an unused identifier and a request
  is made for an item of the feed.
\<close>

definition wf_store :: "store \<Rightarrow> bool" where
  "wf_store s =
     (distinct (map item_id (items s)) \<and> distinct (map req_id (requests s))
      \<and> list_all (\<lambda>r. itemId r \<in> set (map item_id (items s))) (requests s))"

section \<open>Concrete scenarios\<close>

text \<open>
  Alice shares a drill; Bob and Carol ask for it. The profiles are the ones the session
  bootstrap generates.
\<close>

definition profileOf :: "string \<Rightarrow> profile" where
  "profileOf uid =
     \<lparr>displayName = ''Neighbor-'' @ take 5 uid, neighborhoodId = ''west-boone'', createdAt = 0\<rparr>"

definition drill :: item where
  "drill = \<lparr>item_id = ''i1'', item_name = ''Drill'', item_description = ''Cordless drill'',
            item_imageUrl = [], item_terms = ''Return clean'', item_ownerId = ''alice'',
            item_ownerName = ''Neighbor-alice'', item_status = Available, item_createdAt = 10\<rparr>"

definition bobs_request :: request where
  "bobs_request =
     \<lparr>req_id = ''r1'', itemId = ''i1'', itemName = ''Drill'', itemImageUrl = [],
      ownerId = ''alice'', borrowerId = ''bob'', borrowerName = ''Neighbor-bob'',
      borrowDate = ''2025-06-01'', returnDate = ''2025-06-02'', message = [],
      status = Pending, requestedAt = Some 20, conditionCheckIn = [], conditionCheckOut = []\<rparr>"

definition drillStore :: store where
  "drillStore = \<lparr>profileDocs = [], items = [drill], requests = [bobs_request], issued = []\<rparr>"

definition lentStore :: store where
  "lentStore = \<lparr>profileDocs = [], items = [drill\<lparr>item_status := Borrowed\<rparr>],
                requests = [bobs_request\<lparr>status := Approved\<rparr>], issued = []\<rparr>"

definition historyEntry :: "request_status \<Rightarrow> int option \<Rightarrow> request" where
  "historyEntry st t = bobs_request\<lparr>status := st, requestedAt := t\<rparr>"

definition bobsHistory :: store where
  "bobsHistory =
     \<lparr>profileDocs = [], items = [drill],
      requests =
        [historyEntry Declined (Some 5), historyEntry Approved (Some 1),
         (historyEntry Pending (Some 7))\<lparr>borrowerId := ''carol''\<rparr>,
         historyEntry Pending None, historyEntry Returned (Some 3),
         historyEntry Approved (Some 9), historyEntry Pending (Some 4)],
      issued = []\<rparr>"


definition one_approval :: "(bool \<times> bool \<times> operation) list" where
  "one_approval =
     [(True, True, Share ''alice'' (profileOf ''alice'') ''i1'' 10 ''Drill'' ''Cordless drill'' [] []),
      (True, True, Request ''bob'' (profileOf ''bob'') ''r1'' 20 ''i1'' ''2025-06-01'' ''2025-06-02'' []),
      (True, True, Request ''carol'' (profileOf ''carol'') ''r2'' 30 ''i1'' ''2025-06-03'' ''2025-06-04'' []),
      (True, True, Approve ''alice'' ''r1'')]"

definition two_approvals :: "(bool \<times> bool \<times> operation) list" where
  "two_approvals = one_approval @ [(True, True, Approve ''alice'' ''r2'')]"

definition two_approvals_one_return :: "(bool \<times> bool \<times> operation) list" where
  "two_approvals_one_return = two_approvals @ [(True, True, Return ''bob'' ''r1'')]"

text \<open>Alice has shared the drill and Bob has asked for it.\<close>

definition drill_requested :: "(bool \<times> bool \<times> operation) list" where
  "drill_requested =
     [(True, True, Share ''alice'' (profileOf ''alice'') ''i1'' 10 ''Drill'' ''Cordless drill'' [] []),
      (True, True, Request ''bob'' (profileOf ''bob'') ''r1'' 20 ''i1'' ''2025-06-01'' ''2025-06-02'' [])]"

text \<open>
  Then Alice's approval of Bob's request makes its first write; Bob, whose view shows
  the request approved, returns the drill with both writes; then the approval makes its
  second write.
\<close>

definition return_inside_approve :: "event list" where
  "return_inside_approve =
     one_at_a_time drill_requested @
     [ApproveClick 0 0 ''alice'' ''r1'' True, ReturnClick 0 ''bob'' ''r1'' True,
      SecondWrite 1 True, SecondWrite 0 True]"

text \<open>
  Or Alice approves Bob's request, both writes; a second view of hers, which still
  shows the request pending, declines it.
\<close>

definition approve_then_stale_decline :: "event list" where
  "approve_then_stale_decline =
     one_at_a_time drill_requested @
     [ApproveClick 0 0 ''alice'' ''r1'' True, SecondWrite 0 True,
      DeclineClick 2 2 ''alice'' ''r1'' True]"


definition firstSignIn :: "error option \<times> app_state \<times> store" where
  "firstSignIn =
     onAuthStateChanged_callback ''neighborhood-toolkit'' True True ''p1'' 100 (Some ''abcdefgh'')
       (initialApp, emptyStore)"

definition secondSignIn :: "error option \<times> app_state \<times> store" where
  "secondSignIn =
     onAuthStateChanged_callback ''neighborhood-toolkit'' True True ''p2'' 200 (Some ''abcdefgh'')
       (initialApp, snd (snd firstSignIn))"

definition mixedFeed :: "item list" where
  "mixedFeed =
     [drill, drill\<lparr>item_id := ''i2'', item_status := Borrowed\<rparr>,
      drill\<lparr>item_id := ''i3'', item_ownerId := ''bob''\<rparr>]"

section \<open>Lemmas\<close>

lemmas handler_defs =
  AddItemModal_handleSubmit_def BorrowModal_handleSubmit_def handleAction_def handleReturn_def
  addDoc_item_def addDoc_request_def updateDoc_request_def updateDoc_item_def
  getDoc_request_def getDoc_item_def setRequestStatus_def setItemStatus_def
  visibleItems_def MyItems_actionable_def MyBorrows_returnable_def MyBorrows_view_def
  sortRequests_def array_sort_def compareRequests_def statusOrder_def seconds_or_0_def Let_def

lemmas scenario_defs = drill_def bobs_request_def drillStore_def profileOf_def emptyStore_def

lemmas run_defs = handler_defs all_accepted_def approves_borrowed_def one_at_a_time_def
  start_def snapshot_def commit_def MyItems_buttons_def

lemmas exec_defs = run_defs itemsAndApprovals_def statusAndApprovals_def approvedCount_def
  status_history_def forward_run_def requests_step_def one_step_def forward_def
  requests_current_def

subsection \<open>The sort\<close>

lemma mset_insertBy: "mset (insertBy cmp x ys) = add_mset x (mset ys)"
  by (induction ys) auto

lemma mset_array_sort: "mset (array_sort cmp xs) = mset xs"
  by (induction xs) (auto simp: array_sort_def mset_insertBy)

lemma set_insertBy: "set (insertBy cmp x ys) = insert x (set ys)"
  by (induction ys) auto

lemma compare_le_iff: "compareRequests a b \<le> 0 \<longleftrightarrow> history_order a b"
  by (cases "status a"; cases "status b")
     (auto simp: compareRequests_def history_order_def status_precedes_def statusOrder_def
        timestamp_def seconds_or_0_def split: option.splits)

lemma history_order_total: "\<not> history_order a b \<Longrightarrow> history_order b a"
  by (cases "status a"; cases "status b")
     (auto simp: history_order_def status_precedes_def)

lemma history_order_trans: "history_order a b \<Longrightarrow> history_order b c \<Longrightarrow> history_order a c"
  by (cases "status a"; cases "status b"; cases "status c")
     (auto simp: history_order_def status_precedes_def)

lemma set_sortRequests: "set (sortRequests rs) = set rs"
  unfolding sortRequests_def by (induction rs) (auto simp: array_sort_def set_insertBy)

lemma sorted_insertBy:
  "sorted_wrt history_order ys \<Longrightarrow> sorted_wrt history_order (insertBy compareRequests x ys)"
proof (induction ys)
  case Nil
  then show ?case by simp
next
  case (Cons y ys)
  show ?case
  proof (cases "compareRequests x y \<le> 0")
    case True
    then have xy: "history_order x y" by (simp add: compare_le_iff)
    have "\<forall>z\<in>set ys. history_order x z"
      using Cons.prems xy by (auto intro: history_order_trans)
    with True xy Cons.prems show ?thesis by simp
  next
    case False
    then have yx: "history_order y x"
      by (simp add: compare_le_iff history_order_total)
    with False Cons show ?thesis by (auto simp: set_insertBy)
  qed
qed

lemma sorted_sortRequests: "sorted_wrt history_order (sortRequests rs)"
  unfolding sortRequests_def array_sort_def
  by (induction rs) (auto intro: sorted_insertBy)


subsection \<open>What each handler does to the collections\<close>

lemma find_setRequestStatus:
  "find (\<lambda>x. req_id x = rid) (setRequestStatus rid st rs)
     = map_option (\<lambda>r. r\<lparr>status := st\<rparr>) (find (\<lambda>x. req_id x = rid) rs)"
  by (induction rs) (auto simp: setRequestStatus_def)

lemma handleAction_requests:
  "requests (snd (handleAction ok1 ok2 rid st s)) =
     (if ok1 \<and> getDoc_request rid s \<noteq> None then setRequestStatus rid st (requests s)
      else requests s)"
  by (auto simp: handleAction_def updateDoc_request_def updateDoc_item_def Let_def
        getDoc_request_def find_setRequestStatus split: option.splits)

lemma handleAction_items:
  "items (snd (handleAction ok1 ok2 rid st s)) =
     (case getDoc_request rid s of
        None \<Rightarrow> items s
      | Some r \<Rightarrow>
          if ok1 \<and> st = Approved \<and> ok2 \<and> getDoc_item (itemId r) s \<noteq> None
          then setItemStatus (itemId r) Borrowed (items s) else items s)"
  by (auto simp: handleAction_def updateDoc_request_def updateDoc_item_def Let_def
        getDoc_request_def getDoc_item_def find_setRequestStatus split: option.splits)

lemma handleReturn_requests:
  "requests (snd (handleReturn ok1 ok2 r s)) =
     (if ok1 \<and> getDoc_request (req_id r) s \<noteq> None
      then setRequestStatus (req_id r) Returned (requests s) else requests s)"
  by (auto simp: handleReturn_def updateDoc_request_def updateDoc_item_def Let_def
        split: option.splits)

lemma handleReturn_items:
  "items (snd (handleReturn ok1 ok2 r s)) =
     (if ok1 \<and> getDoc_request (req_id r) s \<noteq> None \<and> ok2 \<and> getDoc_item (itemId r) s \<noteq> None
      then setItemStatus (itemId r) Available (items s) else items s)"
  by (auto simp: handleReturn_def updateDoc_request_def updateDoc_item_def Let_def
        getDoc_item_def split: option.splits)

lemma share_requests:
  "requests (snd (AddItemModal_handleSubmit ok newId now uid prof n d i t s)) = requests s"
  by (simp add: AddItemModal_handleSubmit_def addDoc_item_def Let_def)

lemma share_items:
  "items (snd (AddItemModal_handleSubmit ok newId now uid prof n d i t s)) = items s \<or>
   (\<exists>x. items (snd (AddItemModal_handleSubmit ok newId now uid prof n d i t s)) = items s @ [x]
        \<and> item_id x = newId \<and> item_status x = Available)"
  by (simp add: AddItemModal_handleSubmit_def addDoc_item_def Let_def)

lemma borrow_items:
  "items (snd (BorrowModal_handleSubmit ok newId now uid prof it b r m s)) = items s"
  by (simp add: BorrowModal_handleSubmit_def addDoc_request_def Let_def)

lemma borrow_requests:
  "requests (snd (BorrowModal_handleSubmit ok newId now uid prof it b r m s)) = requests s \<or>
   (\<exists>x. requests (snd (BorrowModal_handleSubmit ok newId now uid prof it b r m s)) = requests s @ [x]
        \<and> req_id x = newId \<and> status x = Pending \<and> itemId x = item_id it)"
  by (simp add: BorrowModal_handleSubmit_def addDoc_request_def Let_def)

lemma map_req_id_set [simp]: "map req_id (setRequestStatus rid st rs) = map req_id rs"
  by (induction rs) (auto simp: setRequestStatus_def)

lemma map_itemId_set [simp]: "map itemId (setRequestStatus rid st rs) = map itemId rs"
  by (induction rs) (auto simp: setRequestStatus_def)

lemma map_item_id_set [simp]: "map item_id (setItemStatus iid st xs) = map item_id xs"
  by (induction xs) (auto simp: setItemStatus_def)

lemma actionable_D:
  "find (\<lambda>r. req_id r = rid) (MyItems_actionable uid s) \<noteq> None \<Longrightarrow>
   \<exists>r\<in>set (requests s). req_id r = rid \<and> status r = Pending"
  by (auto simp: find_None_iff MyItems_actionable_def Let_def)

lemma find_SomeD: "find P xs = Some x \<Longrightarrow> x \<in> set xs \<and> P x"
  by (induction xs) (auto split: if_splits)

lemma returnable_D:
  "find (\<lambda>r. req_id r = rid) (MyBorrows_returnable uid s) = Some r \<Longrightarrow>
   r \<in> set (requests s) \<and> req_id r = rid \<and> status r = Approved"
  by (auto simp: MyBorrows_returnable_def MyBorrows_view_def set_sortRequests dest!: find_SomeD)


subsection \<open>What each write and each event does\<close>

lemma updateDoc_request_requests:
  "requests (snd (updateDoc_request ok rid st s)) =
     (if ok \<and> getDoc_request rid s \<noteq> None then setRequestStatus rid st (requests s)
      else requests s)"
  by (simp add: updateDoc_request_def Let_def)

lemma updateDoc_request_items: "items (snd (updateDoc_request ok rid st s)) = items s"
  by (simp add: updateDoc_request_def Let_def)


lemma updateDoc_item_items:
  "items (snd (updateDoc_item ok iid st s)) =
     (if ok \<and> getDoc_item iid s \<noteq> None then setItemStatus iid st (items s) else items s)"
  by (simp add: updateDoc_item_def Let_def)

lemma decline_is_one_write:
  "handleAction ok ok2 rid Declined s = updateDoc_request ok rid Declined s"
  by (simp add: handleAction_def split: prod.splits option.splits)

lemma snapshot_current: "snapshot sys 0 = Some (db sys)"
  by (simp add: snapshot_def)



lemma exec1_ApproveClick:
  "exec1 (ApproveClick ai ar uid rid ok) sys = Some sys' \<Longrightarrow>
   \<exists>vi vr q. snapshot sys ai = Some vi \<and> snapshot sys ar = Some vr
     \<and> find (\<lambda>r. req_id r = rid) (MyItems_actionable uid (vi\<lparr>requests := requests vr\<rparr>)) = Some q
     \<and> db sys' = snd (updateDoc_request ok rid Approved (db sys))
     \<and> past sys' = db sys # past sys
     \<and> inflight sys' =
         (if fst (updateDoc_request ok rid Approved (db sys)) = None
          then inflight sys @ [ApproveAwaiting rid] else inflight sys)"
  by (auto simp: MyItems_buttons_def commit_def split: option.splits prod.splits)

lemma exec1_DeclineClick:
  "exec1 (DeclineClick ai ar uid rid ok) sys = Some sys' \<Longrightarrow>
   \<exists>vi vr q. snapshot sys ai = Some vi \<and> snapshot sys ar = Some vr
     \<and> find (\<lambda>r. req_id r = rid) (MyItems_actionable uid (vi\<lparr>requests := requests vr\<rparr>)) = Some q
     \<and> sys' = commit sys (snd (updateDoc_request ok rid Declined (db sys)))"
  by (auto simp: MyItems_buttons_def split: option.splits)

lemma exec1_ReturnClick:
  "exec1 (ReturnClick age uid rid ok) sys = Some sys' \<Longrightarrow>
   \<exists>v q. snapshot sys age = Some v
     \<and> find (\<lambda>r. req_id r = rid) (MyBorrows_returnable uid v) = Some q
     \<and> db sys' = snd (updateDoc_request ok (req_id q) Returned (db sys))
     \<and> past sys' = db sys # past sys
     \<and> inflight sys' =
         (if fst (updateDoc_request ok (req_id q) Returned (db sys)) = None
          then inflight sys @ [ReturnAwaiting (itemId q)] else inflight sys)"
  by (auto simp: commit_def split: option.splits prod.splits)



lemma exec_append:
  "exec (xs @ ys) sys = (case exec xs sys of None \<Rightarrow> None | Some m \<Rightarrow> exec ys m)"
  by (induction xs arbitrary: sys) (auto split: option.splits)

subsection \<open>A click on an up-to-date request snapshot moves a status one step forward\<close>
















subsection \<open>Counting approved requests\<close>

lemma find_unique:
  "distinct (map f xs) \<Longrightarrow> x \<in> set xs \<Longrightarrow> find (\<lambda>y. f y = f x) xs = Some x"
  by (induction xs) (auto simp: rev_image_eqI)

lemma setRequestStatus_fresh:
  "rid \<notin> req_id ` set rs \<Longrightarrow> setRequestStatus rid st rs = rs"
  by (induction rs) (auto simp: setRequestStatus_def)

lemma count_setRequestStatus:
  assumes "distinct (map req_id rs)" and "r \<in> set rs"
  shows "length (filter P (setRequestStatus (req_id r) st rs)) + (if P r then 1 else 0)
       = length (filter P rs) + (if P (r\<lparr>status := st\<rparr>) then 1 else 0)"
  using assms
proof (induction rs)
  case Nil
  then show ?case by simp
next
  case (Cons x xs)
  show ?case
  proof (cases "x = r")
    case True
    with Cons.prems have "req_id r \<notin> req_id ` set xs" by auto
    then have "setRequestStatus (req_id r) st xs = xs" by (rule setRequestStatus_fresh)
    then have "setRequestStatus (req_id r) st (x # xs) = r\<lparr>status := st\<rparr> # xs"
      using True by (simp add: setRequestStatus_def)
    with True show ?thesis by simp
  next
    case False
    with Cons.prems have r: "r \<in> set xs" and ne: "req_id x \<noteq> req_id r" by auto
    from ne have "setRequestStatus (req_id r) st (x # xs) = x # setRequestStatus (req_id r) st xs"
      by (simp add: setRequestStatus_def)
    with Cons.IH [OF _ r] Cons.prems(1) show ?thesis by simp
  qed
qed

lemma ac_approve:
  assumes "distinct (map req_id (requests s))" and "r \<in> set (requests s)" and "status r = Pending"
    and "requests s' = setRequestStatus (req_id r) Approved (requests s)"
  shows "approvedCount iid s' = approvedCount iid s + (if itemId r = iid then 1 else 0)"
  using count_setRequestStatus [OF assms(1,2), of "\<lambda>r. itemId r = iid \<and> status r = Approved" Approved]
    assms(3,4) by (simp add: approvedCount_def split: if_splits)

lemma ac_decline:
  assumes "distinct (map req_id (requests s))" and "r \<in> set (requests s)" and "status r = Pending"
    and "requests s' = setRequestStatus (req_id r) Declined (requests s)"
  shows "approvedCount iid s' = approvedCount iid s"
  using count_setRequestStatus [OF assms(1,2), of "\<lambda>r. itemId r = iid \<and> status r = Approved" Declined]
    assms(3,4) by (simp add: approvedCount_def split: if_splits)

lemma ac_return:
  assumes "distinct (map req_id (requests s))" and "r \<in> set (requests s)" and "status r = Approved"
    and "requests s' = setRequestStatus (req_id r) Returned (requests s)"
  shows "approvedCount iid s' + (if itemId r = iid then 1 else 0) = approvedCount iid s"
  using count_setRequestStatus [OF assms(1,2), of "\<lambda>r. itemId r = iid \<and> status r = Approved" Returned]
    assms(3,4) by (simp add: approvedCount_def split: if_splits)

lemma ac_unreferenced:
  "iid \<notin> itemId ` set (requests s) \<Longrightarrow> approvedCount iid s = 0"
  by (auto simp: approvedCount_def filter_empty_conv)

lemma getDoc_request_unique:
  "distinct (map req_id (requests s)) \<Longrightarrow> r \<in> set (requests s) \<Longrightarrow>
   getDoc_request (req_id r) s = Some r"
  by (simp add: getDoc_request_def find_unique)

lemma getDoc_item_exists:
  "iid \<in> item_id ` set (items s) \<Longrightarrow> getDoc_item iid s \<noteq> None"
  by (auto simp: getDoc_item_def find_None_iff)

lemma wf_item_of_request:
  "wf_store s \<Longrightarrow> r \<in> set (requests s) \<Longrightarrow> itemId r \<in> item_id ` set (items s)"
  by (auto simp: wf_store_def list_all_iff)

lemma image_item_id_set [simp]: "item_id ` set (setItemStatus iid st xs) = item_id ` set xs"
  by (induction xs) (auto simp: setItemStatus_def)

lemma list_all_itemId_set [simp]:
  "list_all (\<lambda>r. itemId r \<in> A) (setRequestStatus rid st rs) = list_all (\<lambda>r. itemId r \<in> A) rs"
  by (induction rs) (auto simp: setRequestStatus_def)

lemma in_setItemStatus:
  "i' \<in> set (setItemStatus iid st xs) \<Longrightarrow>
   \<exists>i\<in>set xs. item_id i' = item_id i
      \<and> item_status i' = (if item_id i = iid then st else item_status i)"
  unfolding setItemStatus_def by (induction xs) auto

lemma bha_iff:
  "borrowed_has_approved s \<longleftrightarrow>
   (\<forall>i\<in>set (items s). item_status i = Borrowed \<longrightarrow> 1 \<le> approvedCount (item_id i) s)"
  by (simp add: borrowed_has_approved_def list_all_iff)

lemma one_approved_pointwise:
  "((b \<longleftrightarrow> 1 \<le> (c::nat)) \<and> (b \<longrightarrow> c = 1)) \<longleftrightarrow> c = (if b then 1 else 0)"
  by (cases b) auto

lemma inv_iff:
  "borrowed_iff_one_approved s \<longleftrightarrow>
   (\<forall>i\<in>set (items s). approvedCount (item_id i) s = (if item_status i = Borrowed then 1 else 0))"
  unfolding borrowed_iff_one_approved_def list_all_iff one_approved_pointwise ..


subsection \<open>What a handler that runs to its end does\<close>

lemma approve_effect:
  assumes "wf_store s" and "r \<in> set (requests s)"
  shows "requests (snd (handleAction True True (req_id r) Approved s))
           = setRequestStatus (req_id r) Approved (requests s)"
    and "items (snd (handleAction True True (req_id r) Approved s))
           = setItemStatus (itemId r) Borrowed (items s)"
  using assms getDoc_request_unique [of s r] getDoc_item_exists [OF wf_item_of_request [OF assms]]
  by (auto simp: handleAction_requests handleAction_items wf_store_def)

lemma decline_effect:
  assumes "wf_store s" and "r \<in> set (requests s)"
  shows "requests (snd (updateDoc_request True (req_id r) Declined s))
           = setRequestStatus (req_id r) Declined (requests s)"
  using assms getDoc_request_unique [of s r]
  by (auto simp: updateDoc_request_requests wf_store_def)

lemma return_effect:
  assumes "wf_store s" and "find (\<lambda>q. req_id q = rid) (MyBorrows_returnable uid s) = Some r"
  shows "requests (snd (handleReturn True True r s))
           = setRequestStatus (req_id r) Returned (requests s)"
    and "items (snd (handleReturn True True r s))
           = setItemStatus (itemId r) Available (items s)"
proof -
  from assms(2) have r: "r \<in> set (requests s)" "req_id r = rid" by (auto dest: returnable_D)
  with assms getDoc_request_unique [of s r] getDoc_item_exists [OF wf_item_of_request [OF assms(1) r(1)]]
  show "requests (snd (handleReturn True True r s))
           = setRequestStatus (req_id r) Returned (requests s)"
    and "items (snd (handleReturn True True r s))
           = setItemStatus (itemId r) Available (items s)"
    by (auto simp: handleReturn_requests handleReturn_items wf_store_def)
qed

lemma wf_share:
  "wf_store s \<Longrightarrow> newId \<notin> item_id ` set (items s) \<Longrightarrow>
   wf_store (snd (AddItemModal_handleSubmit ok newId now uid prof n d i t s))"
  using share_items [of ok newId now uid "prof" n d i t s]
  by (auto simp: wf_store_def share_requests list_all_iff)

lemma wf_borrow:
  "wf_store s \<Longrightarrow> newId \<notin> req_id ` set (requests s) \<Longrightarrow> it \<in> set (items s) \<Longrightarrow>
   wf_store (snd (BorrowModal_handleSubmit ok newId now uid prof it b r m s))"
  using borrow_requests [of ok newId now uid "prof" it b r m s]
  by (auto simp: wf_store_def borrow_items list_all_iff)

lemma wf_handleAction: "wf_store s \<Longrightarrow> wf_store (snd (handleAction ok1 ok2 rid st s))"
  by (auto simp: wf_store_def handleAction_requests handleAction_items split: option.splits)

lemma wf_decline: "wf_store s \<Longrightarrow> wf_store (snd (updateDoc_request ok rid st s))"
  by (auto simp: wf_store_def updateDoc_request_requests updateDoc_request_items)

lemma wf_handleReturn: "wf_store s \<Longrightarrow> wf_store (snd (handleReturn ok1 ok2 r s))"
  by (auto simp: wf_store_def handleReturn_requests handleReturn_items)

subsection \<open>A handler that runs to its end, all writes accepted, keeps the invariants\<close>

lemma bha_share:
  assumes b: "borrowed_has_approved s"
  shows "borrowed_has_approved (snd (AddItemModal_handleSubmit True newId now uid prof n d i t s))"
proof -
  have "approvedCount iid (snd (AddItemModal_handleSubmit True newId now uid prof n d i t s))
          = approvedCount iid s" for iid
    by (simp add: approvedCount_def share_requests)
  with b share_items [of True newId now uid "prof" n d i t s] show ?thesis
    by (auto simp: bha_iff)
qed

lemma bha_borrow:
  assumes b: "borrowed_has_approved s"
  shows "borrowed_has_approved (snd (BorrowModal_handleSubmit True newId now uid prof it bd rd m s))"
proof -
  have "approvedCount j (snd (BorrowModal_handleSubmit True newId now uid prof it bd rd m s))
          = approvedCount j s" for j
    using borrow_requests [of True newId now uid "prof" it bd rd m s]
    by (auto simp: approvedCount_def)
  with b show ?thesis by (auto simp: bha_iff borrow_items)
qed

lemma bha_approve:
  assumes w: "wf_store s" and r: "r \<in> set (requests s)" "status r = Pending"
    and b: "borrowed_has_approved s"
  shows "borrowed_has_approved (snd (handleAction True True (req_id r) Approved s))"
proof -
  from w have d: "distinct (map req_id (requests s))" by (simp add: wf_store_def)
  note eff = approve_effect [OF w r(1)]
  have c: "approvedCount j (snd (handleAction True True (req_id r) Approved s))
             = approvedCount j s + (if itemId r = j then 1 else 0)" for j
    using ac_approve [OF d r] eff(1) by simp
  show ?thesis unfolding bha_iff
  proof
    fix i' assume "i' \<in> set (items (snd (handleAction True True (req_id r) Approved s)))"
    then obtain i where i: "i \<in> set (items s)" "item_id i' = item_id i"
        "item_status i' = (if item_id i = itemId r then Borrowed else item_status i)"
      unfolding eff(2) by (auto dest: in_setItemStatus)
    with b show "item_status i' = Borrowed \<longrightarrow>
        1 \<le> approvedCount (item_id i') (snd (handleAction True True (req_id r) Approved s))"
      by (auto simp: c bha_iff split: if_splits)
  qed
qed

lemma bha_decline:
  assumes w: "wf_store s" and r: "r \<in> set (requests s)" "status r = Pending"
    and b: "borrowed_has_approved s"
  shows "borrowed_has_approved (snd (updateDoc_request True (req_id r) Declined s))"
proof -
  from w have d: "distinct (map req_id (requests s))" by (simp add: wf_store_def)
  have c: "approvedCount j (snd (updateDoc_request True (req_id r) Declined s))
             = approvedCount j s" for j
    using ac_decline [OF d r] decline_effect [OF w r(1)] by simp
  with b show ?thesis unfolding bha_iff updateDoc_request_items by simp
qed

lemma bha_return:
  assumes w: "wf_store s"
    and f: "find (\<lambda>q. req_id q = rid) (MyBorrows_returnable uid s) = Some r"
    and b: "borrowed_has_approved s"
  shows "borrowed_has_approved (snd (handleReturn True True r s))"
proof -
  from f have r: "r \<in> set (requests s)" "status r = Approved" by (auto dest: returnable_D)
  from w have d: "distinct (map req_id (requests s))" by (simp add: wf_store_def)
  note eff = return_effect [OF w f]
  have c: "approvedCount j (snd (handleReturn True True r s))
             + (if itemId r = j then 1 else 0) = approvedCount j s" for j
    using ac_return [OF d r] eff(1) by simp
  show ?thesis unfolding bha_iff
  proof
    fix i' assume "i' \<in> set (items (snd (handleReturn True True r s)))"
    then obtain i where i: "i \<in> set (items s)" "item_id i' = item_id i"
        "item_status i' = (if item_id i = itemId r then Available else item_status i)"
      unfolding eff(2) by (auto dest: in_setItemStatus)
    with b c [of "item_id i"] show "item_status i' = Borrowed \<longrightarrow>
        1 \<le> approvedCount (item_id i') (snd (handleReturn True True r s))"
      by (auto simp: bha_iff split: if_splits)
  qed
qed

lemma inv_share:
  assumes w: "wf_store s" and n: "newId \<notin> item_id ` set (items s)"
    and b: "borrowed_iff_one_approved s"
  shows "borrowed_iff_one_approved (snd (AddItemModal_handleSubmit True newId now uid prof n' d i t s))"
proof -
  have same: "approvedCount iid (snd (AddItemModal_handleSubmit True newId now uid prof n' d i t s))
          = approvedCount iid s" for iid
    by (simp add: approvedCount_def share_requests)
  from w n have "newId \<notin> itemId ` set (requests s)" by (auto simp: wf_store_def list_all_iff)
  then have "approvedCount newId s = 0" by (rule ac_unreferenced)
  with same b share_items [of True newId now uid "prof" n' d i t s] show ?thesis
    by (auto simp: inv_iff)
qed

lemma inv_borrow:
  assumes b: "borrowed_iff_one_approved s"
  shows "borrowed_iff_one_approved (snd (BorrowModal_handleSubmit True newId now uid prof it bd rd m s))"
proof -
  have "approvedCount j (snd (BorrowModal_handleSubmit True newId now uid prof it bd rd m s))
          = approvedCount j s" for j
    using borrow_requests [of True newId now uid "prof" it bd rd m s]
    by (auto simp: approvedCount_def)
  with b show ?thesis by (auto simp: inv_iff borrow_items)
qed

lemma inv_approve:
  assumes w: "wf_store s" and r: "r \<in> set (requests s)" "status r = Pending"
    and n: "\<not> approves_borrowed (ApproveClick ai ar uid (req_id r) ok) s"
    and b: "borrowed_iff_one_approved s"
  shows "borrowed_iff_one_approved (snd (handleAction True True (req_id r) Approved s))"
proof -
  from w have d: "distinct (map req_id (requests s))"
    and di: "distinct (map item_id (items s))" by (simp_all add: wf_store_def)
  note eff = approve_effect [OF w r(1)]
  have c: "approvedCount j (snd (handleAction True True (req_id r) Approved s))
             = approvedCount j s + (if itemId r = j then 1 else 0)" for j
    using ac_approve [OF d r] eff(1) by simp
  have avail: "item_status i \<noteq> Borrowed" if "i \<in> set (items s)" "item_id i = itemId r" for i
  proof -
    from that di have "getDoc_item (itemId r) s = Some i"
      using find_unique [of item_id "items s" i] by (simp add: getDoc_item_def)
    with n getDoc_request_unique [OF d r(1)] show ?thesis
      by (simp add: approves_borrowed_def)
  qed
  show ?thesis unfolding inv_iff
  proof
    fix i' assume "i' \<in> set (items (snd (handleAction True True (req_id r) Approved s)))"
    then obtain i where i: "i \<in> set (items s)" "item_id i' = item_id i"
        "item_status i' = (if item_id i = itemId r then Borrowed else item_status i)"
      unfolding eff(2) by (auto dest: in_setItemStatus)
    with b avail [of i]
    show "approvedCount (item_id i') (snd (handleAction True True (req_id r) Approved s))
        = (if item_status i' = Borrowed then 1 else 0)"
      by (auto simp: c inv_iff split: if_splits)
  qed
qed

lemma inv_decline:
  assumes w: "wf_store s" and r: "r \<in> set (requests s)" "status r = Pending"
    and b: "borrowed_iff_one_approved s"
  shows "borrowed_iff_one_approved (snd (updateDoc_request True (req_id r) Declined s))"
proof -
  from w have d: "distinct (map req_id (requests s))" by (simp add: wf_store_def)
  have c: "approvedCount j (snd (updateDoc_request True (req_id r) Declined s))
             = approvedCount j s" for j
    using ac_decline [OF d r] decline_effect [OF w r(1)] by simp
  with b show ?thesis unfolding inv_iff updateDoc_request_items by simp
qed

lemma inv_return:
  assumes w: "wf_store s"
    and f: "find (\<lambda>q. req_id q = rid) (MyBorrows_returnable uid s) = Some r"
    and b: "borrowed_iff_one_approved s"
  shows "borrowed_iff_one_approved (snd (handleReturn True True r s))"
proof -
  from f have r: "r \<in> set (requests s)" "status r = Approved" by (auto dest: returnable_D)
  from w have d: "distinct (map req_id (requests s))" by (simp add: wf_store_def)
  note eff = return_effect [OF w f]
  have c: "approvedCount j (snd (handleReturn True True r s))
             + (if itemId r = j then 1 else 0) = approvedCount j s" for j
    using ac_return [OF d r] eff(1) by simp
  show ?thesis unfolding inv_iff
  proof
    fix i' assume "i' \<in> set (items (snd (handleReturn True True r s)))"
    then obtain i where i: "i \<in> set (items s)" "item_id i' = item_id i"
        "item_status i' = (if item_id i = itemId r then Available else item_status i)"
      unfolding eff(2) by (auto dest: in_setItemStatus)
    from b i(1) have "approvedCount (item_id i) s = (if item_status i = Borrowed then 1 else 0)"
      by (simp add: inv_iff)
    with i c [of "item_id i"]
    show "approvedCount (item_id i') (snd (handleReturn True True r s))
        = (if item_status i' = Borrowed then 1 else 0)"
      by (auto split: if_splits)
  qed
qed

subsection \<open>The events of an operation that runs alone are its handler\<close>

lemma same_requests [simp]: "s\<lparr>requests := requests s\<rparr> = s"
  by simp

lemma exec_single: "exec [ev] sys = exec1 ev sys"
  by (cases "exec1 ev sys") simp_all

lemma block_Share:
  "exec (events_of (ok1, ok2, Share uid prof newId now n d i t)) sys = Some m \<Longrightarrow>
   newId \<notin> item_id ` set (items (db sys)) \<and> inflight m = inflight sys
   \<and> db m = snd (AddItemModal_handleSubmit ok1 newId now uid prof n d i t (db sys))"
  by (auto simp: commit_def split: if_splits)

lemma block_Request:
  "exec (events_of (ok1, ok2, Request uid prof newId now iid b r msg)) sys = Some m \<Longrightarrow>
   \<exists>it. find (\<lambda>i. item_id i = iid) (visibleItems uid (items (db sys))) = Some it
     \<and> newId \<notin> req_id ` set (requests (db sys)) \<and> inflight m = inflight sys
     \<and> db m = snd (BorrowModal_handleSubmit ok1 newId now uid prof it b r msg (db sys))"
  by (auto simp: commit_def snapshot_current split: if_splits option.splits)

lemma block_Decline:
  "exec (events_of (ok1, ok2, Decline uid rid)) sys = Some m \<Longrightarrow>
   (\<exists>q\<in>set (requests (db sys)). req_id q = rid \<and> status q = Pending)
   \<and> inflight m = inflight sys
   \<and> db m = snd (updateDoc_request ok1 rid Declined (db sys))"
proof -
  assume "exec (events_of (ok1, ok2, Decline uid rid)) sys = Some m"
  then have e: "exec1 (DeclineClick 0 0 uid rid ok1) sys = Some m"
    unfolding events_of.simps exec_single .
  from exec1_DeclineClick [OF e] obtain q where
    g: "find (\<lambda>r. req_id r = rid) (MyItems_actionable uid (db sys)) = Some q"
    and m: "m = commit sys (snd (updateDoc_request ok1 rid Declined (db sys)))"
    by (auto simp: snapshot_current)
  from g actionable_D [of rid uid "db sys"]
  have "\<exists>q\<in>set (requests (db sys)). req_id q = rid \<and> status q = Pending" by simp
  with m show ?thesis by (simp add: commit_def)
qed

lemma block_Approve:
  assumes e: "exec (events_of (True, ok2, Approve uid rid)) sys = Some m"
    and i: "inflight sys = []"
  shows "(\<exists>q\<in>set (requests (db sys)). req_id q = rid \<and> status q = Pending)
   \<and> inflight m = [] \<and> db m = snd (handleAction True ok2 rid Approved (db sys))"
proof -
  from e obtain m1 where m1: "exec1 (ApproveClick 0 0 uid rid True) sys = Some m1"
    and m2: "exec1 (SecondWrite 0 ok2) m1 = Some m"
    by (auto split: option.splits)
  from exec1_ApproveClick [OF m1] obtain q where
    g: "find (\<lambda>r. req_id r = rid) (MyItems_actionable uid (db sys)) = Some q"
    and d1: "db m1 = snd (updateDoc_request True rid Approved (db sys))"
    and i1: "inflight m1 =
         (if fst (updateDoc_request True rid Approved (db sys)) = None
          then inflight sys @ [ApproveAwaiting rid] else inflight sys)"
    by (auto simp: snapshot_current)
  from g actionable_D [of rid uid "db sys"]
  have p: "\<exists>q\<in>set (requests (db sys)). req_id q = rid \<and> status q = Pending" by simp
  then have ex: "getDoc_request rid (db sys) \<noteq> None"
    by (auto simp: getDoc_request_def find_None_iff)
  then have f1: "fst (updateDoc_request True rid Approved (db sys)) = None"
    by (simp add: updateDoc_request_def Let_def)
  with i i1 have i1': "inflight m1 = [ApproveAwaiting rid]" by simp
  from ex obtain r0 where r0: "getDoc_request rid (db sys) = Some r0" by blast
  have g1: "getDoc_request rid (db m1) = Some (r0\<lparr>status := Approved\<rparr>)"
    using r0 unfolding d1
    by (simp add: updateDoc_request_def Let_def getDoc_request_def find_setRequestStatus)
  from m2 i1' g1 have "db m = snd (updateDoc_item ok2 (itemId r0) Borrowed (db m1))"
    and "inflight m = []"
    by (auto simp: Let_def commit_def)
  moreover have "snd (handleAction True ok2 rid Approved (db sys))
      = snd (updateDoc_item ok2 (itemId r0) Borrowed (db m1))"
    using r0 unfolding d1
    by (simp add: handleAction_def updateDoc_request_def Let_def getDoc_request_def
        find_setRequestStatus)
  ultimately show ?thesis using p by simp
qed

lemma block_Return:
  assumes e: "exec (events_of (True, ok2, Return uid rid)) sys = Some m"
    and i: "inflight sys = []"
  shows "\<exists>q. find (\<lambda>r. req_id r = rid) (MyBorrows_returnable uid (db sys)) = Some q
     \<and> inflight m = [] \<and> db m = snd (handleReturn True ok2 q (db sys))"
proof -
  from e obtain m1 where m1: "exec1 (ReturnClick 0 uid rid True) sys = Some m1"
    and m2: "exec1 (SecondWrite 0 ok2) m1 = Some m"
    by (auto split: option.splits)
  from exec1_ReturnClick [OF m1] obtain q where
    g: "find (\<lambda>r. req_id r = rid) (MyBorrows_returnable uid (db sys)) = Some q"
    and d1: "db m1 = snd (updateDoc_request True (req_id q) Returned (db sys))"
    and i1: "inflight m1 =
         (if fst (updateDoc_request True (req_id q) Returned (db sys)) = None
          then inflight sys @ [ReturnAwaiting (itemId q)] else inflight sys)"
    by (auto simp: snapshot_current)
  from returnable_D [OF g] have "q \<in> set (requests (db sys))" by simp
  then have ex: "getDoc_request (req_id q) (db sys) \<noteq> None"
    by (auto simp: getDoc_request_def find_None_iff)
  then have f1: "fst (updateDoc_request True (req_id q) Returned (db sys)) = None"
    by (simp add: updateDoc_request_def Let_def)
  with i i1 have i1': "inflight m1 = [ReturnAwaiting (itemId q)]" by simp
  from m2 i1' have "db m = snd (updateDoc_item ok2 (itemId q) Available (db m1))"
    and "inflight m = []"
    by (auto simp: Let_def commit_def)
  moreover have "snd (handleReturn True ok2 q (db sys))
      = snd (updateDoc_item ok2 (itemId q) Available (db m1))"
    using ex unfolding d1 by (auto simp: handleReturn_def updateDoc_request_def Let_def)
  ultimately show ?thesis using g by simp
qed

subsection \<open>Operations that run one at a time, all writes accepted\<close>

lemma block_invariants:
  assumes e: "exec (events_of (True, True, a)) sys = Some m" and i: "inflight sys = []"
    and w: "wf_store (db sys)"
  shows "inflight m = []" and "wf_store (db m)"
    and "borrowed_has_approved (db sys) \<Longrightarrow> borrowed_has_approved (db m)"
    and "borrowed_iff_one_approved (db sys) \<Longrightarrow> no_double_approval (events_of (True, True, a)) sys
         \<Longrightarrow> borrowed_iff_one_approved (db m)"
proof -
  have "inflight m = [] \<and> wf_store (db m)
    \<and> (borrowed_has_approved (db sys) \<longrightarrow> borrowed_has_approved (db m))
    \<and> (borrowed_iff_one_approved (db sys) \<longrightarrow> no_double_approval (events_of (True, True, a)) sys
         \<longrightarrow> borrowed_iff_one_approved (db m))"
  proof (cases a)
    case (Share uid prof newId now n d im t)
    from block_Share [OF e [unfolded Share]] i w show ?thesis
      by (auto simp: wf_share bha_share inv_share)
  next
    case (Request uid prof newId now iid b r msg)
    from block_Request [OF e [unfolded Request]] obtain it where
      it: "find (\<lambda>i. item_id i = iid) (visibleItems uid (items (db sys))) = Some it"
      and n: "newId \<notin> req_id ` set (requests (db sys))" and im: "inflight m = inflight sys"
      and d: "db m = snd (BorrowModal_handleSubmit True newId now uid prof it b r msg (db sys))"
      by blast
    from it have "it \<in> set (items (db sys))" by (auto dest!: find_SomeD simp: visibleItems_def)
    with w n i im show ?thesis unfolding d by (auto simp: wf_borrow bha_borrow inv_borrow)
  next
    case (Approve uid rid)
    from block_Approve [OF e [unfolded Approve] i] obtain q where
      q: "q \<in> set (requests (db sys))" "req_id q = rid" "status q = Pending"
      and im: "inflight m = []"
      and d: "db m = snd (handleAction True True (req_id q) Approved (db sys))"
      by blast
    have "no_double_approval (events_of (True, True, a)) sys \<Longrightarrow>
          \<not> approves_borrowed (ApproveClick 0 0 uid (req_id q) True) (db sys)"
      unfolding Approve q(2) by simp
    with w q im show ?thesis unfolding d
      by (auto simp: wf_handleAction bha_approve intro: inv_approve)
  next
    case (Decline uid rid)
    from block_Decline [OF e [unfolded Decline]] obtain q where
      q: "q \<in> set (requests (db sys))" "req_id q = rid" "status q = Pending"
      and im: "inflight m = inflight sys"
      and d: "db m = snd (updateDoc_request True (req_id q) Declined (db sys))"
      by blast
    with w i show ?thesis unfolding d by (auto simp: wf_decline bha_decline inv_decline)
  next
    case (Return uid rid)
    from block_Return [OF e [unfolded Return] i] obtain q where
      q: "find (\<lambda>r. req_id r = rid) (MyBorrows_returnable uid (db sys)) = Some q"
      and im: "inflight m = []"
      and d: "db m = snd (handleReturn True True q (db sys))"
      by blast
    with w show ?thesis unfolding d
      by (auto simp: wf_handleReturn intro: bha_return inv_return)
  qed
  then show "inflight m = []" and "wf_store (db m)"
    and "borrowed_has_approved (db sys) \<Longrightarrow> borrowed_has_approved (db m)"
    and "borrowed_iff_one_approved (db sys) \<Longrightarrow> no_double_approval (events_of (True, True, a)) sys
         \<Longrightarrow> borrowed_iff_one_approved (db m)"
    by simp_all
qed

lemma no_double_approval_append:
  "no_double_approval (xs @ ys) sys \<Longrightarrow> exec xs sys = Some m \<Longrightarrow>
   no_double_approval xs sys \<and> no_double_approval ys m"
  by (induction xs arbitrary: sys) (auto split: option.splits)

lemma wf_empty: "wf_store emptyStore"
  by (simp add: wf_store_def emptyStore_def)

lemma all_accepted_Cons:
  "all_accepted ((ok1, ok2, a) # ops) \<longleftrightarrow> ok1 \<and> ok2 \<and> all_accepted ops"
  by (simp add: all_accepted_def)

lemma one_at_a_time_Cons: "one_at_a_time (x # ops) = events_of x @ one_at_a_time ops"
  by (simp add: one_at_a_time_def)

lemma serial_has_approved:
  "inflight sys = [] \<Longrightarrow> wf_store (db sys) \<Longrightarrow> borrowed_has_approved (db sys) \<Longrightarrow>
   exec (one_at_a_time ops) sys = Some sys' \<Longrightarrow> all_accepted ops \<Longrightarrow>
   borrowed_has_approved (db sys')"
proof (induction ops arbitrary: sys)
  case Nil
  then show ?case by (simp add: one_at_a_time_def)
next
  case (Cons x ops)
  obtain ok1 ok2 a where x: "x = (ok1, ok2, a)" by (cases x)
  from Cons.prems(5) have ok: "ok1" "ok2" and acc: "all_accepted ops"
    unfolding x all_accepted_Cons by simp_all
  from Cons.prems(4) obtain m where m: "exec (events_of (True, True, a)) sys = Some m"
    and r: "exec (one_at_a_time ops) m = Some sys'"
    unfolding x one_at_a_time_Cons exec_append using ok by (auto split: option.splits)
  note b = block_invariants [OF m Cons.prems(1,2)]
  from Cons.IH [OF b(1) b(2) b(3) [OF Cons.prems(3)] r acc] show ?case .
qed

lemma serial_one_approved:
  "inflight sys = [] \<Longrightarrow> wf_store (db sys) \<Longrightarrow> borrowed_iff_one_approved (db sys) \<Longrightarrow>
   exec (one_at_a_time ops) sys = Some sys' \<Longrightarrow> all_accepted ops \<Longrightarrow>
   no_double_approval (one_at_a_time ops) sys \<Longrightarrow>
   borrowed_iff_one_approved (db sys')"
proof (induction ops arbitrary: sys)
  case Nil
  then show ?case by (simp add: one_at_a_time_def)
next
  case (Cons x ops)
  obtain ok1 ok2 a where x: "x = (ok1, ok2, a)" by (cases x)
  from Cons.prems(5) have ok: "ok1" "ok2" and acc: "all_accepted ops"
    unfolding x all_accepted_Cons by simp_all
  from Cons.prems(4) obtain m where m: "exec (events_of (True, True, a)) sys = Some m"
    and r: "exec (one_at_a_time ops) m = Some sys'"
    unfolding x one_at_a_time_Cons exec_append using ok by (auto split: option.splits)
  from Cons.prems(6) have "no_double_approval (events_of (True, True, a) @ one_at_a_time ops) sys"
    unfolding x one_at_a_time_Cons using ok by simp
  from no_double_approval_append [OF this m]
  have n1: "no_double_approval (events_of (True, True, a)) sys"
    and n2: "no_double_approval (one_at_a_time ops) m" by simp_all
  note b = block_invariants [OF m Cons.prems(1,2)]
  from Cons.IH [OF b(1) b(2) b(4) [OF Cons.prems(3) n1] r acc n2] show ?case .
qed

subsection \<open>The session bootstrap\<close>

lemma sign_in_without_profile:
  "getDoc_profile (profilePath appId uid) s = None \<Longrightarrow>
   onAuthStateChanged_callback appId True True newId now (Some uid) (a, s) =
     (None,
      a\<lparr>user := Some uid,
        userProfile := Some \<lparr>displayName = ''Neighbor-'' @ take 5 uid,
                              neighborhoodId = ''west-boone'', createdAt = now\<rparr>,
        isAuthReady := True\<rparr>,
      s\<lparr>issued := issued s @ [AddProfile (profilePath appId uid)
                   \<lparr>displayName = ''Neighbor-'' @ take 5 uid,
                    neighborhoodId = ''west-boone'', createdAt = now\<rparr>],
        profileDocs := profileDocs s @ [(profilePath appId uid @ ''/'' @ newId,
                   \<lparr>displayName = ''Neighbor-'' @ take 5 uid,
                    neighborhoodId = ''west-boone'', createdAt = now\<rparr>)]\<rparr>)"
  by (simp add: onAuthStateChanged_callback_def addDoc_profile_def Let_def)

lemma lookup_path_never_written:
  "getDoc_profile (profilePath appId uid)
     (snd (snd (onAuthStateChanged_callback appId readOk addOk newId now (Some uid) (a, s))))
   = getDoc_profile (profilePath appId uid) s"
  by (simp add: onAuthStateChanged_callback_def addDoc_profile_def getDoc_profile_def Let_def
      map_add_def split: option.splits)

section \<open>Properties of the specification\<close>

subsection \<open>Invariants of the store\<close>

text \<open>
  C1. The specification states: in every store state that the client's operations
  produce, with every write accepted, an item is borrowed if and only if at least one
  request on it is approved, and then exactly one is.

  What holds: when the operations run one at a time, each from a view that shows the
  current store and with its writes reaching the store before the next operation
  starts, and every write is accepted, then after each operation a borrowed item has
  at least one approved request on it; and when, besides, no request is approved
  while its item is already borrowed, then after each operation an item is borrowed if
  and only if at least one request on it is approved, and then exactly one is.
\<close>

theorem C1_borrowed_has_approved:
  assumes "exec (one_at_a_time ops) (start emptyStore) = Some sys" and "all_accepted ops"
  shows "borrowed_has_approved (db sys)
       \<and> (no_double_approval (one_at_a_time ops) (start emptyStore)
            \<longrightarrow> borrowed_iff_one_approved (db sys))"
proof -
  have i: "inflight (start emptyStore) = []" and w: "wf_store (db (start emptyStore))"
    and e: "borrowed_has_approved (db (start emptyStore))"
     "borrowed_iff_one_approved (db (start emptyStore))"
    by (simp_all add: start_def wf_empty)
       (simp_all add: borrowed_has_approved_def borrowed_iff_one_approved_def emptyStore_def)
  from serial_has_approved [OF i w e(1) assms] serial_one_approved [OF i w e(2) assms]
  show ?thesis by blast
qed

theorem C1_witness:
  "all_accepted one_approval
   \<and> no_double_approval (one_at_a_time one_approval) (start emptyStore)
   \<and> map_option itemsAndApprovals (exec (one_at_a_time one_approval) (start emptyStore))
       = Some [(Borrowed, 1)]
   \<and> (\<exists>sys. exec (one_at_a_time one_approval) (start emptyStore) = Some sys
        \<and> borrowed_has_approved (db sys) \<and> borrowed_iff_one_approved (db sys))"
proof -
  have a: "all_accepted one_approval" by (simp add: one_approval_def all_accepted_def)
  have n: "no_double_approval (one_at_a_time one_approval) (start emptyStore)"
    by (simp add: one_approval_def scenario_defs run_defs)
  have e: "map_option itemsAndApprovals (exec (one_at_a_time one_approval) (start emptyStore))
       = Some [(Borrowed, 1)]"
    by (simp add: one_approval_def scenario_defs exec_defs)
  then obtain sys where s1: "exec (one_at_a_time one_approval) (start emptyStore) = Some sys"
    by (cases "exec (one_at_a_time one_approval) (start emptyStore)") simp_all
  from C1_borrowed_has_approved [OF s1 a] n
  have b: "borrowed_has_approved (db sys)" and c: "borrowed_iff_one_approved (db sys)"
    by simp_all
  from s1 b c have "\<exists>sys. exec (one_at_a_time one_approval) (start emptyStore) = Some sys
        \<and> borrowed_has_approved (db sys) \<and> borrowed_iff_one_approved (db sys)"
    by (intro exI [where x = sys] conjI)
  with a n e show ?thesis by (intro conjI)
qed

text \<open>
  The statement of the specification fails, with every write accepted, in three ways.
  One at a time on up-to-date views: Alice shares the drill, Bob and Carol each request
  it, Alice approves both requests, and the drill is borrowed with two approved
  requests; Bob then returns it, and it is available with Carol's request approved.
  With the writes of two handlers interleaved: Bob returns the drill between the two
  writes of Alice's approval, and the drill ends borrowed with no approved request.
  From a stale view: Alice approves Bob's request and then declines it in a view that
  still shows it pending, and the drill is borrowed with no approved request.
\<close>

theorem C1_counterexample:
  "all_accepted two_approvals
   \<and> map_option itemsAndApprovals (exec (one_at_a_time two_approvals) (start emptyStore))
       = Some [(Borrowed, 2)]
   \<and> map_option invariant_now (exec (one_at_a_time two_approvals) (start emptyStore))
       = Some False
   \<and> all_accepted two_approvals_one_return
   \<and> map_option itemsAndApprovals (exec (one_at_a_time two_approvals_one_return) (start emptyStore))
       = Some [(Available, 1)]
   \<and> map_option invariant_now (exec (one_at_a_time two_approvals_one_return) (start emptyStore))
       = Some False
   \<and> map_option itemsAndApprovals (exec return_inside_approve (start emptyStore))
       = Some [(Borrowed, 0)]
   \<and> map_option invariant_now (exec return_inside_approve (start emptyStore)) = Some False
   \<and> map_option itemsAndApprovals (exec approve_then_stale_decline (start emptyStore))
       = Some [(Borrowed, 0)]
   \<and> map_option invariant_now (exec approve_then_stale_decline (start emptyStore)) = Some False"
proof -
  have "all_accepted two_approvals" "all_accepted two_approvals_one_return"
    by (simp_all add: two_approvals_one_return_def two_approvals_def one_approval_def
        all_accepted_def)
  moreover have "map_option itemsAndApprovals (exec (one_at_a_time two_approvals) (start emptyStore))
       = Some [(Borrowed, 2)]"
    by (simp add: two_approvals_def one_approval_def scenario_defs exec_defs)
  moreover have "map_option invariant_now (exec (one_at_a_time two_approvals) (start emptyStore))
       = Some False"
    by (simp add: two_approvals_def one_approval_def scenario_defs exec_defs invariant_now_def
        borrowed_iff_one_approved_def)
  moreover have "map_option itemsAndApprovals
       (exec (one_at_a_time two_approvals_one_return) (start emptyStore)) = Some [(Available, 1)]"
    by (simp add: two_approvals_one_return_def two_approvals_def one_approval_def scenario_defs
        exec_defs)
  moreover have "map_option invariant_now
       (exec (one_at_a_time two_approvals_one_return) (start emptyStore)) = Some False"
    by (simp add: two_approvals_one_return_def two_approvals_def one_approval_def scenario_defs
        exec_defs invariant_now_def borrowed_iff_one_approved_def)
  moreover have "map_option itemsAndApprovals (exec return_inside_approve (start emptyStore))
       = Some [(Borrowed, 0)]"
    by (simp add: return_inside_approve_def drill_requested_def scenario_defs exec_defs)
  moreover have "map_option invariant_now (exec return_inside_approve (start emptyStore))
       = Some False"
    by (simp add: return_inside_approve_def drill_requested_def scenario_defs exec_defs
        invariant_now_def borrowed_iff_one_approved_def)
  moreover have "map_option itemsAndApprovals (exec approve_then_stale_decline (start emptyStore))
       = Some [(Borrowed, 0)]"
    by (simp add: approve_then_stale_decline_def drill_requested_def scenario_defs exec_defs)
  moreover have "map_option invariant_now (exec approve_then_stale_decline (start emptyStore))
       = Some False"
    by (simp add: approve_then_stale_decline_def drill_requested_def scenario_defs exec_defs
        invariant_now_def borrowed_iff_one_approved_def)
  ultimately show ?thesis by (intro conjI)
qed




subsection \<open>The handlers\<close>

text \<open>
  C3. Approving the pending request \<open>r\<close> stored under \<open>requestId\<close>, with the first
  write accepted: the handler issues the status write \<^verbatim>\<open>'approved'\<close> on the request and
  then the status write \<^verbatim>\<open>'borrowed'\<close> on the item the request names, in this order;
  the request is approved afterwards. When the second write is accepted too the item
  is borrowed; when it is rejected the handler ends with the error, the request is
  approved and the item collection is as before, so an item that was available still
  is.
\<close>

theorem C3_approve_two_writes:
  assumes "getDoc_request requestId s = Some r" and "status r = Pending"
  shows "issued (snd (handleAction True ok2 requestId Approved s))
           = issued s @ [SetRequestStatus requestId Approved, SetItemStatus (itemId r) Borrowed]
       \<and> requests (snd (handleAction True ok2 requestId Approved s))
           = setRequestStatus requestId Approved (requests s)
       \<and> getDoc_request requestId (snd (handleAction True ok2 requestId Approved s))
           = Some (r\<lparr>status := Approved\<rparr>)
       \<and> items (snd (handleAction True True requestId Approved s))
           = (if getDoc_item (itemId r) s = None then items s
              else setItemStatus (itemId r) Borrowed (items s))
       \<and> handleAction True False requestId Approved s
           = (Some WriteRejected,
              s\<lparr>issued := issued s @ [SetRequestStatus requestId Approved,
                                      SetItemStatus (itemId r) Borrowed],
                requests := setRequestStatus requestId Approved (requests s)\<rparr>)
       \<and> getDoc_item (itemId r) (snd (handleAction True False requestId Approved s))
           = getDoc_item (itemId r) s"
  using assms
  by (simp add: handleAction_def updateDoc_request_def updateDoc_item_def Let_def
      getDoc_request_def getDoc_item_def find_setRequestStatus)

theorem C3_witness:
  "getDoc_request ''r1'' drillStore = Some bobs_request \<and> status bobs_request = Pending
   \<and> map status (requests (snd (handleAction True False ''r1'' Approved drillStore))) = [Approved]
   \<and> map item_status (items (snd (handleAction True False ''r1'' Approved drillStore))) = [Available]
   \<and> map item_status (items (snd (handleAction True True ''r1'' Approved drillStore))) = [Borrowed]
   \<and> issued (snd (handleAction True False ''r1'' Approved drillStore))
        = [SetRequestStatus ''r1'' Approved, SetItemStatus ''i1'' Borrowed]"
proof -
  have g: "getDoc_request ''r1'' drillStore = Some bobs_request"
    by (simp add: scenario_defs getDoc_request_def)
  have p: "status bobs_request = Pending" by (simp add: bobs_request_def)
  from C3_approve_two_writes [OF g p, of True] C3_approve_two_writes [OF g p, of False] g p
  show ?thesis
    by (simp add: scenario_defs getDoc_item_def setRequestStatus_def setItemStatus_def)
qed

text \<open>
  C4. Returning a request that carries the return button of the borrower's view (an
  approved request of the borrower), with the first write accepted: the handler issues
  exactly two writes, the status write \<^verbatim>\<open>'returned'\<close> on the request and then the status
  write \<^verbatim>\<open>'available'\<close> on the request's item, whatever the outcome of the second; with
  both accepted the request is returned and the item available. A rejected first
  write ends the handler at once.
\<close>

theorem C4_return_two_writes:
  assumes "request \<in> set (MyBorrows_returnable uid s)"
  shows "issued (snd (handleReturn True ok2 request s))
           = issued s @ [SetRequestStatus (req_id request) Returned,
                         SetItemStatus (itemId request) Available]
       \<and> requests (snd (handleReturn True ok2 request s))
           = setRequestStatus (req_id request) Returned (requests s)
       \<and> items (snd (handleReturn True True request s))
           = (if getDoc_item (itemId request) s = None then items s
              else setItemStatus (itemId request) Available (items s))
       \<and> items (snd (handleReturn True False request s)) = items s
       \<and> handleReturn False ok2 request s
           = (Some WriteRejected,
              s\<lparr>issued := issued s @ [SetRequestStatus (req_id request) Returned]\<rparr>)"
proof -
  from assms have "request \<in> set (requests s)"
    by (simp add: MyBorrows_returnable_def MyBorrows_view_def set_sortRequests)
  then have "getDoc_request (req_id request) s \<noteq> None"
    by (auto simp: getDoc_request_def find_None_iff)
  then obtain q where "getDoc_request (req_id request) s = Some q" by blast
  then show ?thesis
    by (simp add: handleReturn_def updateDoc_request_def updateDoc_item_def Let_def getDoc_item_def)
qed

theorem C4_witness:
  "bobs_request\<lparr>status := Approved\<rparr> \<in> set (MyBorrows_returnable ''bob'' lentStore)
   \<and> issued (snd (handleReturn True True (bobs_request\<lparr>status := Approved\<rparr>) lentStore))
        = [SetRequestStatus ''r1'' Returned, SetItemStatus ''i1'' Available]
   \<and> map status (requests (snd (handleReturn True True (bobs_request\<lparr>status := Approved\<rparr>) lentStore)))
        = [Returned]
   \<and> map item_status (items (snd (handleReturn True True (bobs_request\<lparr>status := Approved\<rparr>) lentStore)))
        = [Available]"
proof -
  have m: "bobs_request\<lparr>status := Approved\<rparr> \<in> set (MyBorrows_returnable ''bob'' lentStore)"
    by (simp add: lentStore_def scenario_defs handler_defs)
  from C4_return_two_writes [OF m, of True] m show ?thesis
    by (simp add: lentStore_def scenario_defs getDoc_item_def setRequestStatus_def setItemStatus_def)
qed

text \<open>
  C9. Declining issues one write, the status write \<^verbatim>\<open>'declined'\<close> on the request, and
  nothing else: the handler is that one write. The items and the profiles are
  unchanged, and the requests are unchanged (the write was rejected) or are the old
  ones with the status of the target request, and nothing else, set to declined.
\<close>

theorem C9_decline_frame:
  "handleAction ok1 ok2 requestId Declined s = updateDoc_request ok1 requestId Declined s
   \<and> issued (snd (handleAction ok1 ok2 requestId Declined s))
       = issued s @ [SetRequestStatus requestId Declined]
   \<and> items (snd (handleAction ok1 ok2 requestId Declined s)) = items s
   \<and> profileDocs (snd (handleAction ok1 ok2 requestId Declined s)) = profileDocs s
   \<and> (requests (snd (handleAction ok1 ok2 requestId Declined s)) = requests s
      \<or> requests (snd (handleAction ok1 ok2 requestId Declined s))
          = map (\<lambda>r. if req_id r = requestId then r\<lparr>status := Declined\<rparr> else r) (requests s))"
  by (simp add: handleAction_def updateDoc_request_def Let_def setRequestStatus_def
      split: prod.splits option.splits)

theorem C9_witness:
  "snd (handleAction True True ''r1'' Declined drillStore)
     = drillStore\<lparr>requests := [bobs_request\<lparr>status := Declined\<rparr>],
                  issued := [SetRequestStatus ''r1'' Declined]\<rparr>"
  using C9_decline_frame [of True True "''r1''" drillStore]
  by (simp add: scenario_defs updateDoc_request_def getDoc_request_def setRequestStatus_def Let_def)



subsection \<open>The views\<close>

text \<open>
  C5. The borrow-history view of a user is a permutation of the user's requests in
  the store, sorted by the status precedence approved, pending, returned, declined
  and, within one status, by descending request timestamp (a request without a
  timestamp counts as the earliest). When the user's requests are four requests with
  the statuses declined, approved, pending, returned, whatever their timestamps, the
  view lists them in the order approved, pending, returned, declined.
\<close>

theorem C5_history_sorted:
  "mset (MyBorrows_view uid s) = mset (filter (\<lambda>r. borrowerId r = uid) (requests s))
   \<and> sorted_wrt history_order (MyBorrows_view uid s)
   \<and> map status (MyBorrows_view uid (s\<lparr>requests :=
        [a\<lparr>status := Declined, borrowerId := uid\<rparr>, b\<lparr>status := Approved, borrowerId := uid\<rparr>,
         c\<lparr>status := Pending, borrowerId := uid\<rparr>, d\<lparr>status := Returned, borrowerId := uid\<rparr>]\<rparr>))
       = [Approved, Pending, Returned, Declined]
   \<and> mset (sortRequests rs) = mset rs
   \<and> sorted_wrt history_order (sortRequests rs)"
proof -
  have "map status (MyBorrows_view uid (s\<lparr>requests :=
        [a\<lparr>status := Declined, borrowerId := uid\<rparr>, b\<lparr>status := Approved, borrowerId := uid\<rparr>,
         c\<lparr>status := Pending, borrowerId := uid\<rparr>, d\<lparr>status := Returned, borrowerId := uid\<rparr>]\<rparr>))
       = [Approved, Pending, Returned, Declined]"
    by (simp add: MyBorrows_view_def sortRequests_def array_sort_def compareRequests_def
        statusOrder_def)
  moreover have "mset (sortRequests xs) = mset xs" for xs
    by (simp add: sortRequests_def mset_array_sort)
  moreover have "sorted_wrt history_order (sortRequests xs)" for xs
    by (rule sorted_sortRequests)
  ultimately show ?thesis unfolding MyBorrows_view_def by (intro conjI)
qed

theorem C5_witness:
  "map (\<lambda>r. (status r, requestedAt r)) (MyBorrows_view ''bob'' bobsHistory)
   = [(Approved, Some 9), (Approved, Some 1), (Pending, Some 4), (Pending, None),
      (Returned, Some 3), (Declined, Some 5)]
   \<and> sorted_wrt history_order (MyBorrows_view ''bob'' bobsHistory)
   \<and> size (mset (MyBorrows_view ''bob'' bobsHistory)) = 6"
  using C5_history_sorted [of "''bob''" bobsHistory]
  by (simp add: MyBorrows_view_def sortRequests_def array_sort_def compareRequests_def
      statusOrder_def seconds_or_0_def historyEntry_def bobs_request_def bobsHistory_def)

text \<open>
  C6. For every unfiltered item feed and every viewing user, the visible subset of the
  browsing view holds exactly the items of the feed whose status is available and whose
  owner is not the viewer, in the feed's order; it is what the grid shows.
\<close>

theorem C6_visible_exactly_available_of_others:
  "(i \<in> set (visibleItems uid feed) \<longleftrightarrow>
      i \<in> set feed \<and> item_status i = Available \<and> item_ownerId i \<noteq> uid)
   \<and> visibleItems uid feed =
        filter (\<lambda>x. item_status x = Available \<and> item_ownerId x \<noteq> uid) feed
   \<and> (Dashboard uid feed = NoItemsMessage \<or>
        Dashboard uid feed = Grid (visibleItems uid feed))"
  by (auto simp: visibleItems_def Dashboard_def)

theorem C6_witness:
  "visibleItems ''carol'' mixedFeed = [drill, drill\<lparr>item_id := ''i3'', item_ownerId := ''bob''\<rparr>]
   \<and> visibleItems ''bob'' mixedFeed = [drill]
   \<and> Dashboard ''alice'' mixedFeed = Grid [drill\<lparr>item_id := ''i3'', item_ownerId := ''bob''\<rparr>]"
  using C6_visible_exactly_available_of_others [of drill "''carol''" mixedFeed]
    C6_visible_exactly_available_of_others [of drill "''bob''" mixedFeed]
    C6_visible_exactly_available_of_others [of drill "''alice''" mixedFeed]
  by (simp add: mixedFeed_def scenario_defs Dashboard_def)

text \<open>
  C10. The message of the browsing view depends on the unfiltered feed: it is shown
  exactly when the feed is empty. A feed that is not empty and whose items are all
  borrowed or owned by the viewer gives the empty grid, without the message.
\<close>

theorem C10_message_only_for_empty_feed:
  "(Dashboard uid feed = NoItemsMessage \<longleftrightarrow> feed = [])
   \<and> (feed \<noteq> [] \<longrightarrow>
        list_all (\<lambda>i. item_status i = Borrowed \<or> item_ownerId i = uid) feed \<longrightarrow>
        Dashboard uid feed = Grid [])"
  by (auto simp: Dashboard_def visibleItems_def list_all_iff filter_empty_conv)

theorem C10_witness:
  "[drill\<lparr>item_status := Borrowed\<rparr>] \<noteq> []
   \<and> list_all (\<lambda>i. item_status i = Borrowed \<or> item_ownerId i = ''bob'') [drill\<lparr>item_status := Borrowed\<rparr>]
   \<and> Dashboard ''bob'' [drill\<lparr>item_status := Borrowed\<rparr>] = Grid []
   \<and> Dashboard ''alice'' [drill] = Grid []
   \<and> Dashboard ''bob'' [] = NoItemsMessage"
  using C10_message_only_for_empty_feed [of "''bob''" "[drill\<lparr>item_status := Borrowed\<rparr>]"]
    C10_message_only_for_empty_feed [of "''alice''" "[drill]"]
    C10_message_only_for_empty_feed [of "''bob''" "[]"]
  by (simp add: scenario_defs)

subsection \<open>The session bootstrap\<close>

text \<open>
  C7. The callback stores a new profile with \<^verbatim>\<open>addDoc\<close> in the collection at the
  profile path, that is under the path extended by a generated identifier, and looks
  the profile up with \<^verbatim>\<open>getDoc\<close> at the profile path itself. The first sign-in of
  \<^verbatim>\<open>abcdefgh\<close> creates the profile \<^verbatim>\<open>Neighbor-abcde\<close> in \<^verbatim>\<open>west-boone\<close>; the lookup at
  the profile path still finds nothing afterwards, and the second sign-in creates a
  second profile document instead of reusing the first.
\<close>

theorem C7_second_sign_in_creates_again:
  "profileDocs (snd (snd firstSignIn))
     = [(''/artifacts/neighborhood-toolkit/users/abcdefgh/profile/p1'',
         \<lparr>displayName = ''Neighbor-abcde'', neighborhoodId = ''west-boone'', createdAt = 100\<rparr>)]
   \<and> getDoc_profile (profilePath ''neighborhood-toolkit'' ''abcdefgh'') (snd (snd firstSignIn)) = None
   \<and> map fst (profileDocs (snd (snd secondSignIn)))
     = [''/artifacts/neighborhood-toolkit/users/abcdefgh/profile/p1'',
        ''/artifacts/neighborhood-toolkit/users/abcdefgh/profile/p2'']
   \<and> userProfile (fst (snd secondSignIn))
     = Some \<lparr>displayName = ''Neighbor-abcde'', neighborhoodId = ''west-boone'', createdAt = 200\<rparr>"
  by (simp add: secondSignIn_def firstSignIn_def onAuthStateChanged_callback_def initialApp_def
      emptyStore_def profilePath_def getDoc_profile_def addDoc_profile_def Let_def)

end
